theory Spec2Isabelle
  imports Complex_Main "HOL-Library.Word" "HOL-Library.AList"
begin

section \<open>Go standard library calls made by the program\<close>

text \<open>
  Go strings are byte strings, modelled as \<open>string\<close> (a list of 8-bit characters).
  The result of \<open>url.Parse\<close> and \<open>url.ParseRequestURI\<close> is a \<open>*url.URL\<close>; only the
  fields the program reads are kept.
\<close>

record url =
  Scheme :: string
  Host :: string
  Path :: string
  Fragment :: string
  RawQuery :: string

text \<open>
  The standard library functions whose bodies are tables or algorithms outside the
  repository are taken as parameters, collected in one record:
  \<^item> \<open>unicode_ToLower\<close>: \<open>strings.Map(unicode.ToLower, s)\<close>, the slow path of
    \<open>strings.ToLower\<close>, taken only when the string holds a byte \<open>\<ge> 0x80\<close>;
  \<^item> \<open>sha1_hex\<close>: the 40 lower-case hex digits of the SHA-1 digest of the bytes written
    to the hasher (\<open>fmt.Sprintf("%x", h.Sum(nil))\<close>);
  \<^item> \<open>url_Parse\<close>, \<open>url_ParseRequestURI\<close>: \<open>None\<close> is a non-nil error.
  Every theorem below holds for every value of this record.
\<close>

record stdlib =
  unicode_ToLower :: "string \<Rightarrow> string"
  sha1_hex :: "string \<Rightarrow> string"
  url_Parse :: "string \<Rightarrow> url option"
  url_ParseRequestURI :: "string \<Rightarrow> url option"

definition ascii_lower :: "char \<Rightarrow> char" where
  "ascii_lower c =
     (case map_of (zip ''ABCDEFGHIJKLMNOPQRSTUVWXYZ'' ''abcdefghijklmnopqrstuvwxyz'') c of
        Some d \<Rightarrow> d
      | None \<Rightarrow> c)"

text \<open>
  \<open>strings.ToLower\<close>: an ASCII-only string (no byte with the top bit set) is lowered
  byte by byte; any other string goes through the Unicode tables.
\<close>

definition ToLower :: "stdlib \<Rightarrow> string \<Rightarrow> string" where
  "ToLower L s =
     (if list_all (\<lambda>c. \<not> digit7 c) s then map ascii_lower s else unicode_ToLower L s)"

definition HasPrefix :: "string \<Rightarrow> string \<Rightarrow> bool" where
  "HasPrefix s pre = (length pre \<le> length s \<and> take (length pre) s = pre)"

section \<open>Headers and their security flags (core, page.go)\<close>

record Header =
  Name :: string
  Value :: string
  DecreasesSecurity :: bool
  IncreasesSecurity :: bool

text \<open>
  The two classification tables are Go maps from the lower-cased header name to a
  predicate on the value; a map literal with distinct keys is an association list read
  with \<open>map_of\<close>.
\<close>

definition degradingSecurityHeaders :: "string \<Rightarrow> (string \<Rightarrow> bool) option" where
  "degradingSecurityHeaders = map_of
     [(''server'', \<lambda>v. True),
      (''wpe-backend'', \<lambda>v. True),
      (''x-powered-by'', \<lambda>v. True),
      (''x-cf-powered-by'', \<lambda>v. True),
      (''x-pingback'', \<lambda>v. True),
      (''access-control-allow-origin'', \<lambda>v. v = ''*''),
      (''x-xss-protection'', \<lambda>v. \<not> HasPrefix v ''1'')]"

definition increasingSecurityHeaders :: "stdlib \<Rightarrow> string \<Rightarrow> (string \<Rightarrow> bool) option" where
  "increasingSecurityHeaders L = map_of
     [(''content-security-policy'', \<lambda>v. True),
      (''content-security-policy-report-only'', \<lambda>v. True),
      (''strict-transport-security'', \<lambda>v. True),
      (''x-frame-options'', \<lambda>v. True),
      (''referrer-policy'', \<lambda>v. True),
      (''public-key-pins'', \<lambda>v. True),
      (''x-permitted-cross-domain-policies'', \<lambda>v. ToLower L v = ''master-only''),
      (''x-content-type-options'', \<lambda>v. ToLower L v = ''nosniff''),
      (''x-xss-protection'', \<lambda>v. HasPrefix v ''1'')]"

definition decreasesSecurity :: "stdlib \<Rightarrow> Header \<Rightarrow> bool" where
  "decreasesSecurity L h =
     (case degradingSecurityHeaders (ToLower L (Name h)) of
        Some checkFunc \<Rightarrow> checkFunc (Value h)
      | None \<Rightarrow> False)"

definition increasesSecurity :: "stdlib \<Rightarrow> Header \<Rightarrow> bool" where
  "increasesSecurity L h =
     (case increasingSecurityHeaders L (ToLower L (Name h)) of
        Some checkFunc \<Rightarrow> checkFunc (Value h)
      | None \<Rightarrow> False)"

definition SetSecurityFlags :: "stdlib \<Rightarrow> Header \<Rightarrow> Header" where
  "SetSecurityFlags L h =
     (if decreasesSecurity L h then h\<lparr>DecreasesSecurity := True, IncreasesSecurity := False\<rparr>
      else if increasesSecurity L h then h\<lparr>DecreasesSecurity := False, IncreasesSecurity := True\<rparr>
      else h\<lparr>DecreasesSecurity := False, IncreasesSecurity := False\<rparr>)"

section \<open>Pages and their file names (core, page.go)\<close>

text \<open>
  A \<open>Page\<close>, without its mutex and without the \<open>Tags\<close> and \<open>Notes\<close> lists, which no
  function modelled here reads.
\<close>

record Page =
  UUID :: string
  URL :: string
  Hostname :: string
  Addrs :: "string list"
  Status :: string
  PageTitle :: string
  PageStructure :: "string list"
  HeadersPath :: string
  BodyPath :: string
  ScreenshotPath :: string
  HasScreenshot :: bool
  Headers :: "Header list"

datatype panic = NilPointerDereference | MakeChanSizeOutOfRange

text \<open>\<open>Page.AddHeader\<close>: the flags are computed before the header is appended.\<close>

definition AddHeader :: "stdlib \<Rightarrow> string \<Rightarrow> string \<Rightarrow> Page \<Rightarrow> Page" where
  "AddHeader L name v p =
     p\<lparr>Headers := Headers p @
        [SetSecurityFlags L
           \<lparr>Name = name, Value = v, DecreasesSecurity = False, IncreasesSecurity = False\<rparr>]\<rparr>"

text \<open>
  \<open>Page.ParsedURL\<close> drops the error of \<open>url.Parse\<close>: on an error the pointer it returns
  is nil (\<open>None\<close>).
\<close>

definition ParsedURL :: "stdlib \<Rightarrow> Page \<Rightarrow> url option" where
  "ParsedURL L p = url_Parse L (URL p)"

text \<open>
  \<open>strings.Replace(s, old, new, 1)\<close> and \<open>strings.Replace(s, old, new, -1)\<close> for a
  one-byte \<open>old\<close>: the first occurrence, and every occurrence.
\<close>

fun Replace_first :: "char \<Rightarrow> string \<Rightarrow> string \<Rightarrow> string" where
  "Replace_first old new [] = []"
| "Replace_first old new (c # s) = (if c = old then new @ s else c # Replace_first old new s)"

definition Replace_all :: "char \<Rightarrow> string \<Rightarrow> string \<Rightarrow> string" where
  "Replace_all old new s = concat (map (\<lambda>c. if c = old then new else [c]) s)"

text \<open>
  \<open>Page.BaseFilename\<close>. The hasher receives the path and then the fragment, so it
  digests their concatenation; the query string is never read. Reading \<open>u.Path\<close>
  through a nil \<open>u\<close> panics. The digest has 40 hex digits, so the slice \<open>[0:16]\<close> is
  \<open>take 16\<close>.
\<close>

definition BaseFilename :: "stdlib \<Rightarrow> Page \<Rightarrow> panic + string" where
  "BaseFilename L p =
     (case ParsedURL L p of
        None \<Rightarrow> Inl NilPointerDereference
      | Some u \<Rightarrow>
          (let pathHash = take 16 (sha1_hex L (Path u @ Fragment u));
               host = Replace_first CHR '':'' ''__'' (Host u);
               filename = Scheme u @ ''__'' @ Replace_all CHR ''.'' ''_'' host @ ''__'' @ pathHash
           in Inr (ToLower L filename)))"

section \<open>Events and the driver's dispatch of targets (main.go)\<close>

text \<open>
  An event is a topic of the bus (\<open>core.SessionStart\<close>, \<open>core.Host\<close>, ...) with the
  arguments of its \<open>Publish\<close> call. Ports are Go \<open>int\<close>s; nothing is computed on them.
\<close>

datatype event =
    core_SessionStart
  | core_SessionEnd
  | core_Host string
  | core_URL string
  | core_TCPPort int string
  | core_URLResponsive string

definition isURL :: "stdlib \<Rightarrow> string \<Rightarrow> bool" where
  "isURL L s = (case url_ParseRequestURI L s of None \<Rightarrow> False | Some u \<Rightarrow> Scheme u \<noteq> [])"

definition hasSupportedScheme :: "stdlib \<Rightarrow> string \<Rightarrow> bool" where
  "hasSupportedScheme L s =
     (case url_ParseRequestURI L s of
        None \<Rightarrow> False
      | Some u \<Rightarrow> Scheme u = ''http'' \<or> Scheme u = ''https'')"

text \<open>
  The loop of \<open>processTargets\<close> over the targets; \<open>bus\<close> is the list of the events the
  driver has published so far, in the order of its \<open>Publish\<close> calls.
\<close>

fun publishTargets :: "stdlib \<Rightarrow> string list \<Rightarrow> event list \<Rightarrow> event list" where
  "publishTargets L [] bus = bus"
| "publishTargets L (target # targets) bus =
     (if isURL L target then
        (if hasSupportedScheme L target
         then publishTargets L targets (bus @ [core_URL target])
         else publishTargets L targets bus)
      else publishTargets L targets (bus @ [core_Host target]))"

text \<open>
  \<open>processTargets\<close>: the sleeps and the two waits (on the bus and on the wait group)
  publish nothing themselves, so the driver's own publications are these.
\<close>

definition processTargets :: "stdlib \<Rightarrow> string list \<Rightarrow> event list \<Rightarrow> event list" where
  "processTargets L targets bus =
     publishTargets L targets (bus @ [core_SessionStart]) @ [core_SessionEnd]"

section \<open>Options (core, options.go)\<close>

text \<open>
  A Go \<open>int\<close> is a 64-bit two's-complement integer: a \<open>64 word\<close>, read with \<open>sint\<close>.
  Every field of \<open>Options\<close> is a pointer; \<open>None\<close> is the nil pointer.
\<close>

type_synonym go_int = "64 word"

record Options =
  Threads :: "go_int option"
  OutDir :: "string option"
  SessionPath :: "string option"
  TemplatePath :: "string option"
  Proxy :: "string option"
  ChromePath :: "string option"
  Resolution :: "string option"
  Ports :: "string option"
  ScanTimeout :: "go_int option"
  HTTPTimeout :: "go_int option"
  ScreenshotTimeout :: "go_int option"
  Nmap :: "bool option"
  SaveBody :: "bool option"
  Silent :: "bool option"
  Debug :: "bool option"
  Version :: "bool option"





section \<open>The port scanner (agents, tcp\_port\_scanner.go)\<close>

text \<open>
  \<open>TCPPortScanner.Register\<close>. \<open>subscribed\<close> tells whether \<open>SubscribeAsync\<close> returned
  no error. The result of a successful registration is the capacity of the
  \<open>scanWorker\<close> channel, the semaphore of the per-port goroutines. \<open>make\<close> of a channel
  panics on a negative size; the element type \<open>struct{}\<close> has size zero, so no other
  size is refused.
\<close>

datatype registered = RegisterError | RegisterPanic panic | Registered nat

definition TCPPortScanner_Register :: "bool \<Rightarrow> Options \<Rightarrow> registered" where
  "TCPPortScanner_Register subscribed opts =
     (if \<not> subscribed then RegisterError
      else
        (let concurrentScans = (case Threads opts of None \<Rightarrow> 100 | Some t \<Rightarrow> t)
         in if sint concurrentScans < 0 then RegisterPanic MakeChanSizeOutOfRange
            else Registered (nat (sint concurrentScans))))"

text \<open>
  One call of \<open>dialer.DialContext\<close> returns a connection and an error. On a
  connection the program calls \<open>SetReadDeadline\<close>, \<open>Read\<close> and (deferred) \<open>Close\<close>;
  the record says which of them succeed.
\<close>

datatype net_error = TimeoutError | OtherError

record Conn =
  SetReadDeadline_ok :: bool
  Read_ok :: bool
  Close_ok :: bool

type_synonym dial = "Conn option \<times> net_error option"

text \<open>
  \<open>TCPPortScanner.scanPort\<close>: its result. The debug log lines are not modelled; the
  error of \<open>Read\<close> and of \<open>Close\<close> is only logged.
\<close>

definition scanPort :: "dial \<Rightarrow> bool" where
  "scanPort d =
     (case d of
        (conn, Some err) \<Rightarrow> False
      | (Some c, None) \<Rightarrow> (if \<not> SetReadDeadline_ok c then False else True)
      | (None, None) \<Rightarrow> False)"

text \<open>
  The effects of one per-port goroutine of \<open>OnHost\<close> that the statistics and the bus
  see, and the time it spends: the dials it makes (numbered), and its sleeps in
  milliseconds.
\<close>

datatype effect = Dialled nat | Slept nat

record scan_state =
  PortOpen :: nat
  PortClosed :: nat
  published :: "event list"
  effects :: "effect list"

text \<open>
  The retry loop \<open>for attempts := 0; attempts < 2 && !success; attempts++\<close>. The
  network is a function from the number of the attempt to what the dial of that attempt
  returns.
\<close>

function retryLoop :: "(nat \<Rightarrow> dial) \<Rightarrow> nat \<Rightarrow> bool \<Rightarrow> effect list \<Rightarrow> bool \<times> effect list" where
  "retryLoop net attempts success es =
     (if attempts < 2 \<and> \<not> success then
        (let es1 = (if attempts > 0 then es @ [Slept 500] else es);
             es2 = es1 @ [Dialled attempts];
             success1 = (if scanPort (net attempts) then True else success)
         in retryLoop net (attempts + 1) success1 es2)
      else (success, es))"
  by pat_completeness auto
termination
  by (relation "measure (\<lambda>(net, attempts, success, es). 2 - attempts)") auto

text \<open>
  Modelled from the spec: \<open>Stats.IncrementPortOpen\<close> and \<open>Stats.IncrementPortClosed\<close>
  (package \<open>core\<close>, in a file that is not available) add one to the counter of their name.
\<close>

definition IncrementPortOpen :: "scan_state \<Rightarrow> scan_state" where
  "IncrementPortOpen st = st\<lparr>PortOpen := PortOpen st + 1\<rparr>"

definition IncrementPortClosed :: "scan_state \<Rightarrow> scan_state" where
  "IncrementPortClosed st = st\<lparr>PortClosed := PortClosed st + 1\<rparr>"

text \<open>The body of the goroutine that \<open>OnHost\<close> starts for one port of one host.\<close>

definition scanTask :: "(nat \<Rightarrow> dial) \<Rightarrow> int \<Rightarrow> string \<Rightarrow> scan_state \<Rightarrow> scan_state" where
  "scanTask net port host st =
     (case retryLoop net 0 False [] of
        (success, es) \<Rightarrow>
          (let st1 = st\<lparr>effects := effects st @ es\<rparr>
           in if success
              then (IncrementPortOpen st1)\<lparr>published := published st1 @ [core_TCPPort port host]\<rparr>
              else IncrementPortClosed st1))"

text \<open>
  \<open>OnHost\<close>: nothing is scanned when the lookup of the host fails. The goroutines of
  the ports run concurrently and meet only in the counters and on the bus; the fold is
  the schedule in which they run one after the other, in the order of the port list.
\<close>

definition OnHost :: "bool \<Rightarrow> (int \<Rightarrow> nat \<Rightarrow> dial) \<Rightarrow> int list \<Rightarrow> string \<Rightarrow> scan_state \<Rightarrow> scan_state" where
  "OnHost lookup_ok net ports host st =
     (if \<not> lookup_ok then st
      else fold (\<lambda>port. scanTask (net port) port host) ports st)"

section \<open>The screenshot deadline (agents, url\_screenshotter.go)\<close>

text \<open>
  \<open>time.Duration\<close> is an \<open>int64\<close> count of nanoseconds and \<open>time.Millisecond\<close> is
  \<open>1000000\<close>. The deadline \<open>screenshotPage\<close> gives to \<open>context.WithTimeout\<close> is
  \<open>time.Duration(*ScreenshotTimeout*1000)*time.Millisecond\<close>; both products wrap.
\<close>

definition Millisecond :: go_int where
  "Millisecond = 1000000"

definition screenshotPage_timeout :: "Options \<Rightarrow> panic + go_int" where
  "screenshotPage_timeout opts =
     (case ScreenshotTimeout opts of
        None \<Rightarrow> Inl NilPointerDereference
      | Some t \<Rightarrow> Inr ((t * 1000) * Millisecond))"

text \<open>
  The command is started with \<open>exec.CommandContext\<close>, which kills the process once the
  context's deadline has passed: under a deadline in the future, a process that would
  run for \<open>runtime\<close> nanoseconds is killed exactly when the deadline is shorter.
\<close>

definition chromeKilled :: "Options \<Rightarrow> int \<Rightarrow> panic + bool" where
  "chromeKilled opts runtime =
     (case screenshotPage_timeout opts of
        Inl p \<Rightarrow> Inl p
      | Inr d \<Rightarrow> Inr (sint d < runtime))"

section \<open>Clustering of similar pages (main.go, analyzePages)\<close>

text \<open>
  \<open>Session.Pages\<close> is a Go map from URL to page: a partial function. \<open>range\<close> over a
  Go map visits its entries in an order the language leaves open, so the order of each
  \<open>range\<close> is an input of the model: a list of keys for the page map.

  \<open>Session.PageSimilarityClusters\<close> is a Go map from cluster identifier to a list of
  URLs. It is kept as an association list with distinct keys in which a new key goes to
  the end (\<open>AList.update\<close>), so that the list is in order of creation; the order in which
  \<open>range\<close> visits it is given by a function \<open>ord\<close> that rearranges the entries.
\<close>

type_synonym page_map = "string \<Rightarrow> Page option"
type_synonym clusters = "(string \<times> string list) list"
type_synonym similarity = "string list \<Rightarrow> string list \<Rightarrow> rat"

text \<open>
  Modelled from the spec: \<open>Session.GetPage\<close> (package \<open>core\<close>, file not available) looks a URL
  up in the mapping from URL to page; nil when there is none.
\<close>

definition GetPage :: "page_map \<Rightarrow> string \<Rightarrow> Page option" where
  "GetPage pages u = pages u"

text \<open>
  The innermost loop: the value of \<open>addToCluster\<close> after the loop over the URLs of one
  cluster. \<open>sim\<close> stands for \<open>core.GetSimilarity\<close>, whose \<open>float64\<close> ratio is a
  rational number here.
\<close>

fun addToCluster :: "similarity \<Rightarrow> page_map \<Rightarrow> Page \<Rightarrow> string list \<Rightarrow> bool" where
  "addToCluster sim pages page [] = True"
| "addToCluster sim pages page (pageURL # cluster) =
     (case GetPage pages pageURL of
        Some page2 \<Rightarrow>
          (if sim (PageStructure page) (PageStructure page2) < 80 / 100 then False
           else addToCluster sim pages page cluster)
      | None \<Rightarrow> addToCluster sim pages page cluster)"

text \<open>
  The loop over the clusters, in the order of the \<open>range\<close>: the identifier of the
  cluster the page is appended to, if \<open>foundCluster\<close> becomes true.
\<close>

fun foundCluster :: "similarity \<Rightarrow> page_map \<Rightarrow> Page \<Rightarrow> clusters \<Rightarrow> string option" where
  "foundCluster sim pages page [] = None"
| "foundCluster sim pages page ((clusterUUID, cluster) # rest) =
     (if addToCluster sim pages page cluster then Some clusterUUID
      else foundCluster sim pages page rest)"

text \<open>Reading a Go map at a key it does not hold gives the zero value, a nil slice.\<close>

definition cluster_at :: "clusters \<Rightarrow> string \<Rightarrow> string list" where
  "cluster_at cs k = (case map_of cs k of None \<Rightarrow> [] | Some us \<Rightarrow> us)"

text \<open>
  The body of the outer loop for one page. The state is the cluster map and the number
  of identifiers drawn so far; \<open>uuid n\<close> is the string the \<open>n\<close>-th call of
  \<open>uuid.New().String()\<close> returns.
\<close>

definition clusterPage ::
  "similarity \<Rightarrow> (clusters \<Rightarrow> clusters) \<Rightarrow> (nat \<Rightarrow> string) \<Rightarrow> page_map \<Rightarrow> Page \<Rightarrow>
   clusters \<times> nat \<Rightarrow> clusters \<times> nat" where
  "clusterPage sim ord uuid pages page st =
     (case st of (cs, n) \<Rightarrow>
        (case foundCluster sim pages page (ord cs) of
           Some clusterUUID \<Rightarrow>
             (AList.update clusterUUID (cluster_at cs clusterUUID @ [URL page]) cs, n)
         | None \<Rightarrow> (AList.update (uuid n) [URL page] cs, Suc n)))"

text \<open>The outer loop, over the keys of the page map in the order of its \<open>range\<close>.\<close>

fun clusterPages ::
  "similarity \<Rightarrow> (clusters \<Rightarrow> clusters) \<Rightarrow> (nat \<Rightarrow> string) \<Rightarrow> page_map \<Rightarrow> string list \<Rightarrow>
   clusters \<times> nat \<Rightarrow> clusters \<times> nat" where
  "clusterPages sim ord uuid pages [] st = st"
| "clusterPages sim ord uuid pages (k # ks) st =
     (case pages k of
        None \<Rightarrow> clusterPages sim ord uuid pages ks st
      | Some page \<Rightarrow> clusterPages sim ord uuid pages ks (clusterPage sim ord uuid pages page st))"

text \<open>The partition a cluster map stands for: the set of its clusters, each a set of URLs.\<close>

definition partition_of :: "clusters \<Rightarrow> string set set" where
  "partition_of cs = set (map (\<lambda>kc. set (snd kc)) cs)"

text \<open>The layout of a cluster map: its clusters in order of creation, without their identifiers.\<close>

definition layout_of :: "clusters \<Rightarrow> string list list" where
  "layout_of cs = map snd cs"

subsection \<open>The clustering step in the words of the specification\<close>

text \<open>The pages already in a cluster: those its URLs stand for in the page map.\<close>

definition pages_in :: "page_map \<Rightarrow> string list \<Rightarrow> Page list" where
  "pages_in pages cluster = List.map_filter (GetPage pages) cluster"

definition accepts :: "similarity \<Rightarrow> page_map \<Rightarrow> Page \<Rightarrow> string \<times> string list \<Rightarrow> bool" where
  "accepts sim pages page kc =
     list_all (\<lambda>page2. 80 / 100 \<le> sim (PageStructure page) (PageStructure page2))
       (pages_in pages (snd kc))"

text \<open>
  The page goes to the first cluster (in the order of the visit) that accepts it; if
  none does, a new cluster under a new identifier holds just this page.
\<close>

definition spec_clusterPage ::
  "similarity \<Rightarrow> (clusters \<Rightarrow> clusters) \<Rightarrow> (nat \<Rightarrow> string) \<Rightarrow> page_map \<Rightarrow> Page \<Rightarrow>
   clusters \<times> nat \<Rightarrow> clusters \<times> nat" where
  "spec_clusterPage sim ord uuid pages page st =
     (case st of (cs, n) \<Rightarrow>
        (case find (accepts sim pages page) (ord cs) of
           Some (k, us) \<Rightarrow> (map (\<lambda>(k', us'). if k' = k then (k', us' @ [URL page]) else (k', us')) cs, n)
         | None \<Rightarrow> (cs @ [(uuid n, [URL page])], Suc n)))"

subsection \<open>The similarity of two page structures\<close>

text \<open>
  Modelled from the spec: \<open>core.GetSimilarity\<close> (file not available) is "the
  unified-diff-style similarity ratio in [0,1] using a longest-common-subsequence-based
  measure (the same metric used by a standard text-diff library's ratio)": twice the
  number of matched elements over the sum of the two lengths, and \<open>1\<close> when both
  sequences are empty. It is used for concrete inputs only; the theorems on clustering
  take the similarity as a parameter.
\<close>

fun lcs :: "string list \<Rightarrow> string list \<Rightarrow> nat" where
  "lcs [] ys = 0"
| "lcs (x # xs) [] = 0"
| "lcs (x # xs) (y # ys) =
     (if x = y then Suc (lcs xs ys) else max (lcs xs (y # ys)) (lcs (x # xs) ys))"

definition GetSimilarity :: similarity where
  "GetSimilarity a b =
     (if length a + length b = 0 then 1
      else 2 * of_nat (lcs a b) / of_nat (length a + length b))"

section \<open>Post-processing (main.go)\<close>

text \<open>
  What the file system and the runtime do during post-processing is an input:
  whether each file operation succeeds, what \<open>core.GetPageStructure\<close> reads from a body
  file (\<open>None\<close> when the file cannot be opened or parsed), how the two \<open>range\<close>s over
  the page map and the \<open>range\<close>s over the cluster map are ordered, and the identifiers
  \<open>uuid.New()\<close> draws.
\<close>

record environment =
  urls_file_opens :: bool
  urls_file_writes :: bool
  urls_file_closes :: bool
  read_structure :: "string \<Rightarrow> string list option"
  structure_order :: "string list"
  cluster_page_order :: "string list"
  cluster_order :: "clusters \<Rightarrow> clusters"
  uuid_New :: "nat \<Rightarrow> string"
  template_reads :: bool
  report_file_opens :: bool
  report_renders :: bool
  report_file_closes :: bool
  session_saves :: bool

datatype report_error = CannotReadTemplate | CannotOpenReportFile | CannotRenderReport

text \<open>
  The lines written with \<open>Out.Error\<close> and \<open>Out.Fatal\<close>; the lines of the other levels
  (debug, info, important) are not modelled.
\<close>

datatype log_line =
    Error_open_urls_file
  | Error_write_url string
  | Error_close_urls_file
  | Error_close_report_file
  | Error_save_session
  | Fatal_generate_report report_error

text \<open>
  The part of the session that post-processing reads and writes, with the lines appended
  to \<open>aquatone_urls.txt\<close>, whether the report and the session file were written, and
  the log.
\<close>

record session =
  Pages :: page_map
  PageSimilarityClusters :: clusters
  uuids_drawn :: nat
  urls_txt :: "string list"
  report_written :: bool
  session_written :: bool
  Out :: "log_line list"

text \<open>
  The first loop of \<open>analyzePages\<close>: the structure of each page whose body file can be
  read is stored in the page, and its URL is written to the URLs file when that file was
  opened. File names are relative to the output directory.
\<close>

fun pageStructures :: "stdlib \<Rightarrow> environment \<Rightarrow> string list \<Rightarrow> session \<Rightarrow> panic + session" where
  "pageStructures L E [] s = Inr s"
| "pageStructures L E (k # ks) s =
     (case Pages s k of
        None \<Rightarrow> pageStructures L E ks s
      | Some page \<Rightarrow>
          (case BaseFilename L page of
             Inl p \<Rightarrow> Inl p
           | Inr base \<Rightarrow>
               (case read_structure E (''html/'' @ base @ ''.html'') of
                  None \<Rightarrow> pageStructures L E ks s
                | Some structure \<Rightarrow>
                    (let s1 = s\<lparr>Pages := (Pages s)(k \<mapsto> page\<lparr>PageStructure := structure\<rparr>)\<rparr>;
                         s2 = (if urls_file_opens E then
                                 (if urls_file_writes E
                                  then s1\<lparr>urls_txt := urls_txt s1 @ [URL page @ [CHR 0x0A]]\<rparr>
                                  else s1\<lparr>Out := Out s1 @ [Error_write_url (URL page)]\<rparr>)
                               else s1)
                     in pageStructures L E ks s2))))"

text \<open>
  \<open>analyzePages\<close>. A failure to open the URLs file is logged and nothing else; the
  deferred close of the file runs last. The error the function returns is always nil, so
  the result is the session (or a panic).
\<close>

definition analyzePages :: "stdlib \<Rightarrow> similarity \<Rightarrow> environment \<Rightarrow> session \<Rightarrow> panic + session" where
  "analyzePages L sim E s =
     (let s0 = (if urls_file_opens E then s else s\<lparr>Out := Out s @ [Error_open_urls_file]\<rparr>)
      in case pageStructures L E (structure_order E) s0 of
           Inl p \<Rightarrow> Inl p
         | Inr s1 \<Rightarrow>
             (case clusterPages sim (cluster_order E) (uuid_New E) (Pages s1) (cluster_page_order E)
                     (PageSimilarityClusters s1, uuids_drawn s1) of
                (cs, n) \<Rightarrow>
                  (let s2 = s1\<lparr>PageSimilarityClusters := cs, uuids_drawn := n\<rparr>
                   in Inr (if urls_file_opens E \<and> \<not> urls_file_closes E
                           then s2\<lparr>Out := Out s2 @ [Error_close_urls_file]\<rparr>
                           else s2))))"

text \<open>\<open>generateHTMLReport\<close>: the error it returns, and the session.\<close>

definition generateHTMLReport :: "environment \<Rightarrow> session \<Rightarrow> report_error option \<times> session" where
  "generateHTMLReport E s =
     (if \<not> template_reads E then (Some CannotReadTemplate, s)
      else if \<not> report_file_opens E then (Some CannotOpenReportFile, s)
      else
        (let closed = (\<lambda>s'. if report_file_closes E then s'
                            else s'\<lparr>Out := Out s' @ [Error_close_report_file]\<rparr>)
         in if \<not> report_renders E then (Some CannotRenderReport, closed s)
            else (None, closed (s\<lparr>report_written := True\<rparr>))))"

text \<open>\<open>saveSessionAndPrintStats\<close>: a failed save is logged; the function returns nil.\<close>

definition saveSessionAndPrintStats :: "environment \<Rightarrow> session \<Rightarrow> session" where
  "saveSessionAndPrintStats E s =
     (if \<not> session_saves E then s\<lparr>Out := Out s @ [Error_save_session]\<rparr>
      else s\<lparr>session_written := True\<rparr>)"

text \<open>
  The end of \<open>main\<close>, from the call of \<open>analyzePages\<close> on: the exit code of the process
  and the session it leaves. Returning from \<open>main\<close> is exit code \<open>0\<close>.
\<close>

definition main_post :: "stdlib \<Rightarrow> similarity \<Rightarrow> environment \<Rightarrow> session \<Rightarrow> panic + (nat \<times> session)" where
  "main_post L sim E s =
     (case analyzePages L sim E s of
        Inl p \<Rightarrow> Inl p
      | Inr s1 \<Rightarrow>
          (case generateHTMLReport E s1 of
             (Some err, s2) \<Rightarrow> Inr (1, s2\<lparr>Out := Out s2 @ [Fatal_generate_report err]\<rparr>)
           | (None, s2) \<Rightarrow> Inr (0, saveSessionAndPrintStats E s2)))"

section \<open>The claims' own notions\<close>

text \<open>
  What the driver publishes for one target, in the words of the claim: a target that is
  a URL with a supported scheme is published as a URL, a URL with another scheme is
  dropped, and anything else is published as a host.
\<close>

definition targetEvents :: "stdlib \<Rightarrow> string \<Rightarrow> event list" where
  "targetEvents L t =
     (if isURL L t then (if hasSupportedScheme L t then [core_URL t] else [])
      else [core_Host t])"

text \<open>
  An attempt of the port scanner succeeds when its dial returns a connection and no
  error, and the read deadline can be set on the connection; what the read returns does
  not count.
\<close>

definition attempt_ok :: "dial \<Rightarrow> bool" where
  "attempt_ok d =
     (snd d = None \<and> (case fst d of None \<Rightarrow> False | Some c \<Rightarrow> SetReadDeadline_ok c))"

text \<open>
  Two sessions that agree on everything but the lines of the URLs file and the log.
\<close>

definition apart_from_urls_file :: "session \<Rightarrow> session \<Rightarrow> bool" where
  "apart_from_urls_file s t = (t\<lparr>Out := Out s, urls_txt := urls_txt s\<rparr> = s)"

text \<open>The clustering pass in the words of the specification: its step, page after page.\<close>

fun spec_clusterPages ::
  "similarity \<Rightarrow> (clusters \<Rightarrow> clusters) \<Rightarrow> (nat \<Rightarrow> string) \<Rightarrow> page_map \<Rightarrow> string list \<Rightarrow>
   clusters \<times> nat \<Rightarrow> clusters \<times> nat" where
  "spec_clusterPages sim ord uuid pages [] st = st"
| "spec_clusterPages sim ord uuid pages (k # ks) st =
     (case pages k of
        None \<Rightarrow> spec_clusterPages sim ord uuid pages ks st
      | Some page \<Rightarrow>
          spec_clusterPages sim ord uuid pages ks (spec_clusterPage sim ord uuid pages page st))"

text \<open>What a run of post-processing leaves, without the page map (a function).\<close>

definition summary :: "nat \<times> session \<Rightarrow> nat \<times> clusters \<times> string list \<times> bool \<times> bool \<times> log_line list" where
  "summary r =
     (fst r, PageSimilarityClusters (snd r), urls_txt (snd r), report_written (snd r),
      session_written (snd r), Out (snd r))"

section \<open>Notions for running the clustering pass again\<close>

text \<open>
  A page is settled in a cluster map when the first cluster that accepts it, in order of
  creation, is one that lists its URL: a second visit appends it to that same cluster.
\<close>

definition settled :: "similarity \<Rightarrow> page_map \<Rightarrow> clusters \<Rightarrow> Page \<Rightarrow> bool" where
  "settled sim pages cs p =
     (case foundCluster sim pages p cs of
        None \<Rightarrow> False
      | Some k \<Rightarrow> URL p \<in> set (cluster_at cs k))"

text \<open>A cluster map with each list of URLs replaced by the set of its members.\<close>

definition member_sets :: "clusters \<Rightarrow> (string \<times> string set) list" where
  "member_sets cs = map (apsnd set) cs"

section \<open>Concrete inputs\<close>

text \<open>
  A standard library for concrete runs: the values Go's \<open>url.Parse\<close>,
  \<open>url.ParseRequestURI\<close> and SHA-1 give on the strings used below, as finite tables
  (any other string is outside the tables: a parse error, an empty digest).
\<close>

definition example_urls :: "(string \<times> url) list" where
  "example_urls =
     [(''http://example.com/a#b'',
         \<lparr>Scheme = ''http'', Host = ''example.com'', Path = ''/a'', Fragment = ''b'', RawQuery = []\<rparr>),
      (''http://example.com/ab'',
         \<lparr>Scheme = ''http'', Host = ''example.com'', Path = ''/ab'', Fragment = [], RawQuery = []\<rparr>),
      (''http://example.com/ab?x=1'',
         \<lparr>Scheme = ''http'', Host = ''example.com'', Path = ''/ab'', Fragment = [], RawQuery = ''x=1''\<rparr>),
      (''http://a.example'',
         \<lparr>Scheme = ''http'', Host = ''a.example'', Path = [], Fragment = [], RawQuery = []\<rparr>),
      (''http://b.example'',
         \<lparr>Scheme = ''http'', Host = ''b.example'', Path = [], Fragment = [], RawQuery = []\<rparr>),
      (''http://c.example'',
         \<lparr>Scheme = ''http'', Host = ''c.example'', Path = [], Fragment = [], RawQuery = []\<rparr>),
      (''ftp://example.com/file'',
         \<lparr>Scheme = ''ftp'', Host = ''example.com'', Path = ''/file'', Fragment = [], RawQuery = []\<rparr>)]"

definition example_digests :: "(string \<times> string) list" where
  "example_digests =
     [([], ''da39a3ee5e6b4b0d3255bfef95601890afd80709''),
      (''/ab'', ''68094e6041202b245ad105b7229ad24528ca0608'')]"

definition example_stdlib :: stdlib where
  "example_stdlib =
     \<lparr>unicode_ToLower = (\<lambda>s. s),
      sha1_hex = (\<lambda>s. case map_of example_digests s of None \<Rightarrow> [] | Some d \<Rightarrow> d),
      url_Parse = map_of example_urls,
      url_ParseRequestURI = map_of example_urls\<rparr>"

definition example_page :: "string \<Rightarrow> string list \<Rightarrow> Page" where
  "example_page u structure =
     \<lparr>UUID = [], URL = u, Hostname = [], Addrs = [], Status = [], PageTitle = [],
      PageStructure = structure, HeadersPath = [], BodyPath = [], ScreenshotPath = [],
      HasScreenshot = False, Headers = []\<rparr>"

text \<open>
  Three page structures: the first and the second, and the second and the third, differ
  in one element of six (similarity \<open>5/6\<close>); the first and the third in two (\<open>2/3\<close>).
\<close>

definition structure_a :: "string list" where
  "structure_a = [''0:html'', ''1:head'', ''2:title'', ''1:body'', ''2:div'', ''3:p'']"

definition structure_b :: "string list" where
  "structure_b = [''0:html'', ''1:head'', ''2:title'', ''1:body'', ''2:div'', ''3:span'']"

definition structure_c :: "string list" where
  "structure_c = [''0:html'', ''1:head'', ''2:title'', ''1:body'', ''2:ul'', ''3:span'']"

definition example_pages :: page_map where
  "example_pages = map_of
     [(''http://a.example'', example_page ''http://a.example'' structure_a),
      (''http://b.example'', example_page ''http://b.example'' structure_b),
      (''http://c.example'', example_page ''http://c.example'' structure_c)]"

definition example_uuid :: "nat \<Rightarrow> string" where
  "example_uuid n =
     (if n = 0 then ''6a9c1f0e-2d8b-4c57-9e11-0b6f3a7d5c21''
      else if n = 1 then ''1e4b7a92-5f3c-4d08-8a6e-c2d9f0b3e754''
      else ''cluster-'' @ replicate n CHR ''x'')"


text \<open>An example of the default of \<open>--ports\<close>, and the options of a run without flags.\<close>

definition example_ports :: string where
  "example_ports = ''80,443,8000,8080,8443''"

definition default_Options :: Options where
  "default_Options =
     \<lparr>Threads = Some 0, OutDir = Some ''.'', SessionPath = Some [], TemplatePath = Some [],
      Proxy = Some [], ChromePath = Some [], Resolution = Some ''1440,900'',
      Ports = Some example_ports, ScanTimeout = Some 100, HTTPTimeout = Some 3000,
      ScreenshotTimeout = Some 30000, Nmap = Some False, SaveBody = Some True,
      Silent = Some False, Debug = Some False, Version = Some False\<rparr>"




definition example_session :: session where
  "example_session =
     \<lparr>Pages = example_pages, PageSimilarityClusters = [], uuids_drawn = 0, urls_txt = [],
      report_written = False, session_written = False, Out = []\<rparr>"

definition example_environment :: environment where
  "example_environment =
     \<lparr>urls_file_opens = True, urls_file_writes = True, urls_file_closes = True,
      read_structure = map_of
        [(''html/http__a_example__da39a3ee5e6b4b0d.html'', structure_a),
         (''html/http__b_example__da39a3ee5e6b4b0d.html'', structure_b),
         (''html/http__c_example__da39a3ee5e6b4b0d.html'', structure_c)],
      structure_order = [''http://a.example'', ''http://b.example'', ''http://c.example''],
      cluster_page_order = [''http://a.example'', ''http://b.example'', ''http://c.example''],
      cluster_order = (\<lambda>cs. cs),
      uuid_New = example_uuid,
      template_reads = True, report_file_opens = True, report_renders = True,
      report_file_closes = True, session_saves = True\<rparr>"

text \<open>The keys of \<open>example_pages\<close> in the order of their URLs, and a second supply of identifiers.\<close>

definition example_keys :: "string list" where
  "example_keys = [''http://a.example'', ''http://b.example'', ''http://c.example'']"

definition other_uuid :: "nat \<Rightarrow> string" where
  "other_uuid n =
     (if n = 0 then ''f3d0a8c4-7b12-4e69-b5a0-93c1e7d2048f''
      else if n = 1 then ''0c5e9b37-4a6d-4f21-8d3b-6e1a2f9c7b50''
      else ''other-'' @ replicate n CHR ''y'')"

section \<open>Security flags of a header\<close>

lemma ToLower_xss: "ToLower L ''X-XSS-Protection'' = ''x-xss-protection''"
  by (simp add: ToLower_def ascii_lower_def)

text \<open>
  For a header whose lower-cased name is \<open>x-xss-protection\<close>, the name in both tables,
  the two predicates are each other's negation.
\<close>

lemma xss_protection_predicates:
  "ToLower L (Name h) = ''x-xss-protection'' \<Longrightarrow> decreasesSecurity L h = (\<not> increasesSecurity L h)"
  by (simp add: decreasesSecurity_def increasesSecurity_def degradingSecurityHeaders_def
      increasingSecurityHeaders_def)

text \<open>\<open>AddHeader\<close> keeps the headers of a page free of a header with both flags.\<close>

lemma AddHeader_exclusive:
  assumes "\<forall>h\<in>set (Headers p). \<not> (DecreasesSecurity h \<and> IncreasesSecurity h)"
  shows "\<forall>h\<in>set (Headers (AddHeader L name v p)).
           \<not> (DecreasesSecurity h \<and> IncreasesSecurity h)"
  using assms by (auto simp: AddHeader_def SetSecurityFlags_def)

text \<open>
  Claim C7. For every header name and value, after \<open>SetSecurityFlags\<close> the flags
  \<open>DecreasesSecurity\<close> and \<open>IncreasesSecurity\<close> are never both true, whatever they were
  before and also for a name that is in both tables.
\<close>

theorem SetSecurityFlags_exclusive:
  "\<not> (DecreasesSecurity (SetSecurityFlags L h) \<and> IncreasesSecurity (SetSecurityFlags L h))"
  by (simp add: SetSecurityFlags_def)

theorem SetSecurityFlags_exclusive_witness:
  "SetSecurityFlags example_stdlib
     \<lparr>Name = ''X-XSS-Protection'', Value = ''1; mode=block'',
      DecreasesSecurity = True, IncreasesSecurity = True\<rparr> =
     \<lparr>Name = ''X-XSS-Protection'', Value = ''1; mode=block'',
      DecreasesSecurity = False, IncreasesSecurity = True\<rparr>
   \<and> \<not> (DecreasesSecurity (SetSecurityFlags example_stdlib
            \<lparr>Name = ''X-XSS-Protection'', Value = ''1; mode=block'',
             DecreasesSecurity = True, IncreasesSecurity = True\<rparr>)
        \<and> IncreasesSecurity (SetSecurityFlags example_stdlib
            \<lparr>Name = ''X-XSS-Protection'', Value = ''1; mode=block'',
             DecreasesSecurity = True, IncreasesSecurity = True\<rparr>))"
  using SetSecurityFlags_exclusive [of example_stdlib
      "\<lparr>Name = ''X-XSS-Protection'', Value = ''1; mode=block'',
        DecreasesSecurity = True, IncreasesSecurity = True\<rparr>"]
  by (simp add: SetSecurityFlags_def decreasesSecurity_def increasesSecurity_def
      degradingSecurityHeaders_def increasingSecurityHeaders_def ToLower_xss HasPrefix_def)

section \<open>Base file names\<close>

lemma BaseFilename_concat:
  assumes "ParsedURL L p1 = Some u1" and "ParsedURL L p2 = Some u2"
    and "Scheme u1 = Scheme u2" and "Host u1 = Host u2"
    and "Path u1 @ Fragment u1 = Path u2 @ Fragment u2"
  shows "BaseFilename L p1 = BaseFilename L p2"
  using assms by (simp add: BaseFilename_def)

text \<open>
  Claim C8, as stated, fails in its first half: the URLs \<open>http://example.com/a#b\<close> and
  \<open>http://example.com/ab\<close> differ only in path and fragment, and their base file names
  are the same, since the digest is taken of the path followed by the fragment.
\<close>

theorem BaseFilename_path_fragment_collision:
  "ParsedURL example_stdlib (example_page ''http://example.com/a#b'' []) =
     Some \<lparr>Scheme = ''http'', Host = ''example.com'', Path = ''/a'', Fragment = ''b'', RawQuery = []\<rparr>
   \<and> ParsedURL example_stdlib (example_page ''http://example.com/ab'' []) =
     Some \<lparr>Scheme = ''http'', Host = ''example.com'', Path = ''/ab'', Fragment = [], RawQuery = []\<rparr>
   \<and> BaseFilename example_stdlib (example_page ''http://example.com/a#b'' []) =
     Inr ''http__example_com__68094e6041202b24''
   \<and> BaseFilename example_stdlib (example_page ''http://example.com/ab'' []) =
     Inr ''http__example_com__68094e6041202b24''"
  by (simp add: BaseFilename_def ParsedURL_def example_stdlib_def example_page_def
      example_urls_def example_digests_def Replace_all_def ToLower_def ascii_lower_def)

text \<open>
  Claim C8, amended. For two URLs with the same scheme and host: if they differ only in
  the query string, \<open>BaseFilename\<close> gives equal names; more generally the names are equal
  whenever the path followed by the fragment is the same byte string; and the names can
  differ only when these concatenations differ.
\<close>

theorem BaseFilename_concatenation:
  assumes "ParsedURL L p1 = Some u1" and "ParsedURL L p2 = Some u2"
    and "Scheme u1 = Scheme u2" and "Host u1 = Host u2"
  shows "(Path u1 = Path u2 \<and> Fragment u1 = Fragment u2 \<longrightarrow> BaseFilename L p1 = BaseFilename L p2)
       \<and> (Path u1 @ Fragment u1 = Path u2 @ Fragment u2 \<longrightarrow> BaseFilename L p1 = BaseFilename L p2)
       \<and> (BaseFilename L p1 \<noteq> BaseFilename L p2 \<longrightarrow> Path u1 @ Fragment u1 \<noteq> Path u2 @ Fragment u2)"
  using BaseFilename_concat [OF assms] by auto

theorem BaseFilename_concatenation_witness:
  "RawQuery (the (ParsedURL example_stdlib (example_page ''http://example.com/ab?x=1'' []))) \<noteq>
     RawQuery (the (ParsedURL example_stdlib (example_page ''http://example.com/ab'' [])))
   \<and> BaseFilename example_stdlib (example_page ''http://example.com/ab?x=1'' []) =
     BaseFilename example_stdlib (example_page ''http://example.com/ab'' [])"
proof -
  let ?u1 = "\<lparr>Scheme = ''http'', Host = ''example.com'', Path = ''/ab'', Fragment = [], RawQuery = ''x=1''\<rparr>"
  let ?u2 = "\<lparr>Scheme = ''http'', Host = ''example.com'', Path = ''/ab'', Fragment = [], RawQuery = []\<rparr>"
  have p1: "ParsedURL example_stdlib (example_page ''http://example.com/ab?x=1'' []) = Some ?u1"
    by (simp add: ParsedURL_def example_stdlib_def example_page_def example_urls_def)
  have p2: "ParsedURL example_stdlib (example_page ''http://example.com/ab'' []) = Some ?u2"
    by (simp add: ParsedURL_def example_stdlib_def example_page_def example_urls_def)
  have s: "Scheme ?u1 = Scheme ?u2" and h: "Host ?u1 = Host ?u2"
    by simp_all
  from BaseFilename_concatenation [OF p1 p2 s h] show ?thesis
    by (simp add: p1 p2)
qed

section \<open>Dispatch of the targets\<close>

lemma publishTargets_eq:
  "publishTargets L targets bus = bus @ concat (map (targetEvents L) targets)"
  by (induction targets arbitrary: bus) (simp_all add: targetEvents_def)

lemma processTargets_eq:
  "processTargets L targets bus =
     bus @ [core_SessionStart] @ concat (map (targetEvents L) targets) @ [core_SessionEnd]"
  by (simp add: processTargets_def publishTargets_eq)

lemma core_URL_published:
  "core_URL t \<in> set (processTargets L targets []) \<longleftrightarrow>
     t \<in> set targets \<and> isURL L t \<and> hasSupportedScheme L t"
  by (auto simp: processTargets_eq targetEvents_def split: if_splits)

lemma core_Host_published:
  "core_Host t \<in> set (processTargets L targets []) \<longleftrightarrow> t \<in> set targets \<and> \<not> isURL L t"
  by (auto simp: processTargets_eq targetEvents_def split: if_splits)

text \<open>
  Claim C10. For every target \<open>t\<close> of the input: if \<open>t\<close> parses as a URI whose scheme is
  non-empty and neither \<open>http\<close> nor \<open>https\<close>, the driver publishes neither a \<open>URL\<close> nor a
  \<open>Host\<close> event for it; if \<open>t\<close> does not parse, or parses with an empty scheme, it is
  published as a \<open>Host\<close> event (and not as a \<open>URL\<close>); if its scheme is \<open>http\<close> or
  \<open>https\<close>, it is published as a \<open>URL\<close> event (and not as a \<open>Host\<close>).
\<close>

theorem processTargets_dispatch:
  assumes "t \<in> set targets"
  shows "case url_ParseRequestURI L t of
           None \<Rightarrow>
             core_Host t \<in> set (processTargets L targets []) \<and>
             core_URL t \<notin> set (processTargets L targets [])
         | Some u \<Rightarrow>
             if Scheme u = ''http'' \<or> Scheme u = ''https''
             then core_URL t \<in> set (processTargets L targets []) \<and>
                  core_Host t \<notin> set (processTargets L targets [])
             else if Scheme u = []
             then core_Host t \<in> set (processTargets L targets []) \<and>
                  core_URL t \<notin> set (processTargets L targets [])
             else core_URL t \<notin> set (processTargets L targets []) \<and>
                  core_Host t \<notin> set (processTargets L targets [])"
  using assms
  by (auto simp: core_URL_published core_Host_published isURL_def hasSupportedScheme_def
      split: option.splits)

theorem processTargets_dispatch_witness:
  "processTargets example_stdlib
     [''http://example.com/ab'', ''ftp://example.com/file'', ''example.com''] [] =
     [core_SessionStart, core_URL ''http://example.com/ab'', core_Host ''example.com'',
      core_SessionEnd]
   \<and> core_URL ''ftp://example.com/file'' \<notin> set (processTargets example_stdlib
        [''http://example.com/ab'', ''ftp://example.com/file'', ''example.com''] [])
   \<and> core_Host ''ftp://example.com/file'' \<notin> set (processTargets example_stdlib
        [''http://example.com/ab'', ''ftp://example.com/file'', ''example.com''] [])"
proof -
  have m: "''ftp://example.com/file'' \<in>
      set [''http://example.com/ab'', ''ftp://example.com/file'', ''example.com'']"
    by simp
  have p: "url_ParseRequestURI example_stdlib ''ftp://example.com/file'' =
      Some \<lparr>Scheme = ''ftp'', Host = ''example.com'', Path = ''/file'', Fragment = [], RawQuery = []\<rparr>"
    by (simp add: example_stdlib_def example_urls_def)
  have e: "processTargets example_stdlib
     [''http://example.com/ab'', ''ftp://example.com/file'', ''example.com''] [] =
     [core_SessionStart, core_URL ''http://example.com/ab'', core_Host ''example.com'',
      core_SessionEnd]"
    by (simp add: processTargets_def isURL_def hasSupportedScheme_def example_stdlib_def
        example_urls_def)
  from processTargets_dispatch [OF m, of example_stdlib] p e show ?thesis
    by simp
qed

section \<open>The depth of the port scanner's semaphore\<close>


text \<open>A negative number of threads makes the registration panic.\<close>

lemma Register_negative_panics:
  "Threads opts = Some t \<Longrightarrow> sint t < 0 \<Longrightarrow>
     TCPPortScanner_Register True opts = RegisterPanic MakeChanSizeOutOfRange"
  by (simp add: TCPPortScanner_Register_def)




section \<open>The deadline of a screenshot\<close>

text \<open>
  As long as nothing wraps (an option of at most \<open>9223372036\<close>), the deadline is the
  option times a thousand milliseconds.
\<close>

lemma screenshotPage_timeout_thousandfold:
  assumes "0 \<le> sint t" and "sint t \<le> 9223372036"
    and "ScreenshotTimeout opts = Some t"
  shows "\<exists>d. screenshotPage_timeout opts = Inr d \<and> sint d = sint t * 1000 * 1000000"
proof -
  have m: "sint (1000 :: go_int) = 1000" "sint (1000000 :: go_int) = 1000000" by simp_all
  have a: "sint (t * 1000) = sint t * 1000"
  proof -
    have "sint (t * 1000) = signed_take_bit 63 (sint t * 1000)"
      using sint_word_ariths(3) [of t "1000 :: go_int"] m by simp
    also have "\<dots> = sint t * 1000"
      using assms(1,2) by (intro signed_take_bit_int_eq_self) auto
    finally show ?thesis .
  qed
  have "sint ((t * 1000) * 1000000) = signed_take_bit 63 (sint (t * 1000) * 1000000)"
    using sint_word_ariths(3) [of "t * 1000" "1000000 :: go_int"] m by simp
  also have "\<dots> = sint t * 1000 * 1000000"
    unfolding a using assms(1,2) by (intro signed_take_bit_int_eq_self) auto
  finally show ?thesis
    using assms(3) by (simp add: screenshotPage_timeout_def Millisecond_def)
qed

text \<open>
  Claim C2 says that the Chrome process of a screenshot gets a deadline of exactly
  \<open>ScreenshotTimeout\<close> milliseconds (30000 by default) and is killed when it exceeds it.
  With the default options the deadline the program computes is \<open>30000000\<close>
  milliseconds, a thousand times the option, so a process that runs for 60 seconds
  (\<open>60000\<close> ms, expressed in nanoseconds) is not killed.
\<close>

theorem screenshotPage_timeout_default:
  "screenshotPage_timeout default_Options = Inr (30000000 * Millisecond)
   \<and> screenshotPage_timeout default_Options \<noteq> Inr (30000 * Millisecond)
   \<and> chromeKilled default_Options (60000 * 1000000) = Inr False"
  by (simp add: chromeKilled_def screenshotPage_timeout_def default_Options_def Millisecond_def)

section \<open>One port of one host\<close>

lemma scanPort_attempt_ok: "scanPort d = attempt_ok d"
  by (cases d) (auto simp: scanPort_def attempt_ok_def split: option.splits)

text \<open>A failed read changes nothing: the outcome of the read is not looked at.\<close>

lemma read_error_tolerated: "attempt_ok (Some (c\<lparr>Read_ok := b\<rparr>), e) = attempt_ok (Some c, e)"
  by (simp add: attempt_ok_def)

declare retryLoop.simps [simp del]

lemma retryLoop_done:
  "\<not> attempts < 2 \<or> success \<Longrightarrow> retryLoop net attempts success es = (success, es)"
  by (subst retryLoop.simps) auto

lemma retryLoop_more:
  "attempts < 2 \<Longrightarrow>
   retryLoop net attempts False es =
     retryLoop net (attempts + 1) (attempt_ok (net attempts))
       ((if attempts > 0 then es @ [Slept 500] else es) @ [Dialled attempts])"
  by (subst retryLoop.simps) (simp add: scanPort_attempt_ok Let_def)

lemma retryLoop_0:
  "retryLoop net 0 False [] =
     (if attempt_ok (net 0) then (True, [Dialled 0])
      else (attempt_ok (net 1), [Dialled 0, Slept 500, Dialled 1]))"
  by (simp add: retryLoop_more retryLoop_done)

text \<open>
  A host: nothing happens when its lookup fails; otherwise every configured port is
  counted once, as open or as closed.
\<close>

lemma OnHost_lookup_fails: "OnHost False net ports host st = st"
  by (simp add: OnHost_def)

lemma scanTask_counts:
  "PortOpen (scanTask net port host st) + PortClosed (scanTask net port host st) =
     PortOpen st + PortClosed st + 1"
  by (simp add: scanTask_def retryLoop_0 IncrementPortOpen_def IncrementPortClosed_def Let_def)

lemma OnHost_counts:
  "PortOpen (OnHost True net ports host st) + PortClosed (OnHost True net ports host st) =
     PortOpen st + PortClosed st + length ports"
proof -
  have "PortOpen (fold (\<lambda>port. scanTask (net port) port host) ports st) +
        PortClosed (fold (\<lambda>port. scanTask (net port) port host) ports st) =
        PortOpen st + PortClosed st + length ports"
  proof (induction ports arbitrary: st)
    case Nil
    show ?case by simp
  next
    case (Cons port ports)
    show ?case
      using Cons.IH [of "scanTask (net port) port host st"] scanTask_counts [of "net port" port host st]
      by simp
  qed
  then show ?thesis by (simp add: OnHost_def)
qed



section \<open>Errors of post-processing\<close>

lemma apart_Pages: "apart_from_urls_file s t \<Longrightarrow> Pages t = Pages s"
  by (cases s; cases t) (simp add: apart_from_urls_file_def)

text \<open>
  The first loop of \<open>analyzePages\<close> with and without the URLs file: the same panic, or
  sessions that agree apart from the file and the log.
\<close>

lemma pageStructures_urls:
  assumes "apart_from_urls_file s t"
  shows "rel_sum (=) apart_from_urls_file
           (pageStructures L (E\<lparr>urls_file_opens := False\<rparr>) ks s)
           (pageStructures L (E\<lparr>urls_file_opens := True\<rparr>) ks t)"
  using assms
proof (induction ks arbitrary: s t)
  case Nil
  then show ?case by simp
next
  case (Cons k ks)
  note P = apart_Pages [OF Cons.prems]
  show ?case
  proof (cases "Pages s k")
    case None
    then show ?thesis using Cons.IH [OF Cons.prems] P by simp
  next
    case (Some page)
    show ?thesis
    proof (cases "BaseFilename L page")
      case (Inl p)
      then show ?thesis using Some P by simp
    next
      case (Inr base)
      show ?thesis
      proof (cases "read_structure E (''html/'' @ base @ ''.html'')")
        case None
        then show ?thesis using Some Inr P Cons.IH [OF Cons.prems] by simp
      next
        case (Some str)
        let ?s1 = "s\<lparr>Pages := (Pages s)(k \<mapsto> page\<lparr>PageStructure := str\<rparr>)\<rparr>"
        let ?t1 = "t\<lparr>Pages := (Pages t)(k \<mapsto> page\<lparr>PageStructure := str\<rparr>)\<rparr>"
        let ?t2 = "if urls_file_writes E
                   then ?t1\<lparr>urls_txt := urls_txt ?t1 @ [URL page @ [CHR 0x0A]]\<rparr>
                   else ?t1\<lparr>Out := Out ?t1 @ [Error_write_url (URL page)]\<rparr>"
        have "apart_from_urls_file ?s1 ?t2"
          using Cons.prems P
          by (cases s; cases t) (auto simp: apart_from_urls_file_def)
        from Cons.IH [OF this] show ?thesis
          using \<open>Pages s k = Some page\<close> Inr Some P
          by (cases "urls_file_writes E") (simp_all add: Let_def)
      qed
    qed
  qed
qed

lemma analyzePages_urls:
  "rel_sum (=) apart_from_urls_file
     (analyzePages L sim (E\<lparr>urls_file_opens := False\<rparr>) s)
     (analyzePages L sim (E\<lparr>urls_file_opens := True\<rparr>) s)"
proof -
  have "apart_from_urls_file (s\<lparr>Out := Out s @ [Error_open_urls_file]\<rparr>) s"
    by (cases s) (simp add: apart_from_urls_file_def)
  from pageStructures_urls [OF this, of L E "structure_order E"]
  show ?thesis
    apply (simp add: analyzePages_def Let_def)
    apply (cases "pageStructures L (E\<lparr>urls_file_opens := False\<rparr>) (structure_order E)
                    (s\<lparr>Out := Out s @ [Error_open_urls_file]\<rparr>)";
           cases "pageStructures L (E\<lparr>urls_file_opens := True\<rparr>) (structure_order E) s")
       apply (simp_all split: prod.splits)
    subgoal for a b
      by (cases a; cases b) (auto simp: apart_from_urls_file_def Let_def)
    done
qed

lemma generate_apart:
  "apart_from_urls_file s t \<Longrightarrow>
     fst (generateHTMLReport E s) = fst (generateHTMLReport E t) \<and>
     apart_from_urls_file (snd (generateHTMLReport E s)) (snd (generateHTMLReport E t))"
  by (cases s; cases t) (auto simp: generateHTMLReport_def Let_def apart_from_urls_file_def)

lemma save_apart:
  "apart_from_urls_file s t \<Longrightarrow>
     apart_from_urls_file (saveSessionAndPrintStats E s) (saveSessionAndPrintStats E t)"
  by (cases s; cases t) (auto simp: saveSessionAndPrintStats_def apart_from_urls_file_def)

lemma fatal_apart:
  "apart_from_urls_file s t \<Longrightarrow>
     apart_from_urls_file (s\<lparr>Out := Out s @ [x]\<rparr>) (t\<lparr>Out := Out t @ [x]\<rparr>)"
  by (cases s; cases t) (auto simp: apart_from_urls_file_def)

lemma generate_env: "generateHTMLReport (E\<lparr>urls_file_opens := b\<rparr>) = generateHTMLReport E"
  by (rule ext) (simp add: generateHTMLReport_def)

lemma save_env: "saveSessionAndPrintStats (E\<lparr>urls_file_opens := b\<rparr>) = saveSessionAndPrintStats E"
  by (rule ext) (simp add: saveSessionAndPrintStats_def)

lemma main_post_urls:
  "rel_sum (=) (\<lambda>(c, s1) (d, t1). c = d \<and> apart_from_urls_file s1 t1)
     (main_post L sim (E\<lparr>urls_file_opens := False\<rparr>) s)
     (main_post L sim (E\<lparr>urls_file_opens := True\<rparr>) s)"
proof -
  note A = analyzePages_urls [of L sim E s]
  show ?thesis
  proof (cases "analyzePages L sim (E\<lparr>urls_file_opens := False\<rparr>) s")
    case (Inl p)
    with A show ?thesis
      by (cases "analyzePages L sim (E\<lparr>urls_file_opens := True\<rparr>) s")
         (simp_all add: main_post_def)
  next
    case (Inr s1)
    with A obtain t1 where T: "analyzePages L sim (E\<lparr>urls_file_opens := True\<rparr>) s = Inr t1"
      and R: "apart_from_urls_file s1 t1"
      by (cases "analyzePages L sim (E\<lparr>urls_file_opens := True\<rparr>) s") simp_all
    from generate_apart [OF R, of E] show ?thesis
      using Inr T
      by (cases "generateHTMLReport E s1"; cases "generateHTMLReport E t1")
         (auto simp: main_post_def generate_env save_env save_apart fatal_apart
            split: option.splits)
  qed
qed

text \<open>Nothing is ever removed from the log.\<close>

lemma Out_pageStructures:
  "pageStructures L E ks s = Inr s1 \<Longrightarrow> set (Out s) \<subseteq> set (Out s1)"
proof (induction ks arbitrary: s)
  case Nil
  then show ?case by simp
next
  case (Cons k ks)
  from Cons.prems show ?case
    by (auto simp: Let_def split: option.splits sum.splits if_splits dest!: Cons.IH)
qed

lemma Out_analyzePages:
  assumes "analyzePages L sim E s = Inr s1" and "\<not> urls_file_opens E"
  shows "Error_open_urls_file \<in> set (Out s1)"
proof -
  from assms obtain s0 where
    S: "pageStructures L E (structure_order E) (s\<lparr>Out := Out s @ [Error_open_urls_file]\<rparr>) = Inr s0"
    and O: "Out s1 = Out s0"
    by (auto simp: analyzePages_def Let_def split: sum.splits prod.splits)
  from Out_pageStructures [OF S] O show ?thesis by auto
qed

lemma Out_generateHTMLReport: "set (Out s) \<subseteq> set (Out (snd (generateHTMLReport E s)))"
  by (auto simp: generateHTMLReport_def Let_def)

lemma Out_saveSession: "set (Out s) \<subseteq> set (Out (saveSessionAndPrintStats E s))"
  by (auto simp: saveSessionAndPrintStats_def)

lemma Out_main_post:
  assumes "main_post L sim E s = Inr (code, s')" and "\<not> urls_file_opens E"
  shows "Error_open_urls_file \<in> set (Out s')"
proof -
  from assms(1) obtain s1 where A: "analyzePages L sim E s = Inr s1"
    by (auto simp: main_post_def split: sum.splits)
  note M = Out_analyzePages [OF A assms(2)]
  show ?thesis
  proof (cases "generateHTMLReport E s1")
    case (Pair e s2)
    with Out_generateHTMLReport [of s1 E] M have "Error_open_urls_file \<in> set (Out s2)" by auto
    with assms(1) A Pair Out_saveSession [of s2 E] show ?thesis
      by (cases e) (auto simp: main_post_def)
  qed
qed

text \<open>
  Claim C9. In a run of post-processing that does not panic:
  \<^item> a failure to open \<open>aquatone_urls.txt\<close> is logged as an error and is not fatal: the
    run ends with the same exit code, pages, clusters, report and session file as the
    run in which the file opens (they differ only in the lines of the URLs file and in
    the log);
  \<^item> a failure to render the report ends the process with exit code \<open>1\<close>;
  \<^item> when the report is generated, a failure to write \<open>aquatone_session.json\<close> is logged
    as an error and the process ends with exit code \<open>0\<close>, the report written.
\<close>

theorem post_processing_errors:
  assumes "main_post L sim E s = Inr (code, s')"
  shows "(\<not> urls_file_opens E \<longrightarrow>
            Error_open_urls_file \<in> set (Out s') \<and>
            (\<exists>t'. main_post L sim (E\<lparr>urls_file_opens := True\<rparr>) s = Inr (code, t') \<and>
                  apart_from_urls_file s' t'))
       \<and> (\<not> report_renders E \<longrightarrow> code = 1)
       \<and> (template_reads E \<and> report_file_opens E \<and> report_renders E \<and> \<not> session_saves E \<longrightarrow>
            code = 0 \<and> report_written s' \<and> Error_save_session \<in> set (Out s'))"
proof (intro conjI impI)
  assume U: "\<not> urls_file_opens E"
  then have E: "E\<lparr>urls_file_opens := False\<rparr> = E" by simp
  from Out_main_post [OF assms U] show "Error_open_urls_file \<in> set (Out s')" .
  from main_post_urls [of L sim E s] assms E
  show "\<exists>t'. main_post L sim (E\<lparr>urls_file_opens := True\<rparr>) s = Inr (code, t') \<and>
             apart_from_urls_file s' t'"
    by (cases "main_post L sim (E\<lparr>urls_file_opens := True\<rparr>) s") auto
next
  assume "\<not> report_renders E"
  with assms show "code = 1"
    by (auto simp: main_post_def generateHTMLReport_def Let_def split: sum.splits if_splits)
next
  assume "template_reads E \<and> report_file_opens E \<and> report_renders E \<and> \<not> session_saves E"
  with assms show "code = 0" "report_written s'" "Error_save_session \<in> set (Out s')"
    by (auto simp: main_post_def generateHTMLReport_def saveSessionAndPrintStats_def Let_def
        split: sum.splits if_splits)
qed

theorem post_processing_errors_witness:
  "map_sum id summary
     (main_post example_stdlib GetSimilarity
        (example_environment\<lparr>urls_file_opens := False, session_saves := False\<rparr>)
        example_session) =
     Inr (0,
          [(''6a9c1f0e-2d8b-4c57-9e11-0b6f3a7d5c21'', [''http://a.example'', ''http://b.example'']),
           (''1e4b7a92-5f3c-4d08-8a6e-c2d9f0b3e754'', [''http://c.example''])],
          [], True, False, [Error_open_urls_file, Error_save_session])
   \<and> map_sum id summary
     (main_post example_stdlib GetSimilarity
        (example_environment\<lparr>session_saves := False\<rparr>) example_session) =
     Inr (0,
          [(''6a9c1f0e-2d8b-4c57-9e11-0b6f3a7d5c21'', [''http://a.example'', ''http://b.example'']),
           (''1e4b7a92-5f3c-4d08-8a6e-c2d9f0b3e754'', [''http://c.example''])],
          [''http://a.example'' @ [CHR 0x0A], ''http://b.example'' @ [CHR 0x0A],
           ''http://c.example'' @ [CHR 0x0A]],
          True, False, [Error_save_session])
   \<and> map_sum id summary
     (main_post example_stdlib GetSimilarity
        (example_environment\<lparr>report_renders := False\<rparr>) example_session) =
     Inr (1,
          [(''6a9c1f0e-2d8b-4c57-9e11-0b6f3a7d5c21'', [''http://a.example'', ''http://b.example'']),
           (''1e4b7a92-5f3c-4d08-8a6e-c2d9f0b3e754'', [''http://c.example''])],
          [''http://a.example'' @ [CHR 0x0A], ''http://b.example'' @ [CHR 0x0A],
           ''http://c.example'' @ [CHR 0x0A]],
          False, False, [Fatal_generate_report CannotRenderReport])"
proof -
  let ?E = "example_environment\<lparr>urls_file_opens := False, session_saves := False\<rparr>"
  let ?r = "main_post example_stdlib GetSimilarity ?E example_session"
  have a: "map_sum id summary ?r =
     Inr (0,
          [(''6a9c1f0e-2d8b-4c57-9e11-0b6f3a7d5c21'', [''http://a.example'', ''http://b.example'']),
           (''1e4b7a92-5f3c-4d08-8a6e-c2d9f0b3e754'', [''http://c.example''])],
          [], True, False, [Error_open_urls_file, Error_save_session])"
    by code_simp
  then obtain code s' where r: "?r = Inr (code, s')"
    by (cases ?r) auto
  have e: "\<not> urls_file_opens ?E" "template_reads ?E" "report_file_opens ?E" "report_renders ?E"
      "\<not> session_saves ?E"
    by (simp_all add: example_environment_def)
  from post_processing_errors [OF r] e
  have "code = 0 \<and> report_written s' \<and> Error_save_session \<in> set (Out s') \<and>
        Error_open_urls_file \<in> set (Out s')"
    by simp
  moreover have "map_sum id summary
     (main_post example_stdlib GetSimilarity
        (example_environment\<lparr>session_saves := False\<rparr>) example_session) =
     Inr (0,
          [(''6a9c1f0e-2d8b-4c57-9e11-0b6f3a7d5c21'', [''http://a.example'', ''http://b.example'']),
           (''1e4b7a92-5f3c-4d08-8a6e-c2d9f0b3e754'', [''http://c.example''])],
          [''http://a.example'' @ [CHR 0x0A], ''http://b.example'' @ [CHR 0x0A],
           ''http://c.example'' @ [CHR 0x0A]],
          True, False, [Error_save_session])"
    by code_simp
  moreover have "map_sum id summary
     (main_post example_stdlib GetSimilarity
        (example_environment\<lparr>report_renders := False\<rparr>) example_session) =
     Inr (1,
          [(''6a9c1f0e-2d8b-4c57-9e11-0b6f3a7d5c21'', [''http://a.example'', ''http://b.example'']),
           (''1e4b7a92-5f3c-4d08-8a6e-c2d9f0b3e754'', [''http://c.example''])],
          [''http://a.example'' @ [CHR 0x0A], ''http://b.example'' @ [CHR 0x0A],
           ''http://c.example'' @ [CHR 0x0A]],
          False, False, [Fatal_generate_report CannotRenderReport])"
    by code_simp
  ultimately show ?thesis using a by simp
qed

section \<open>The clustering pass and the specification's algorithm\<close>

lemma addToCluster_iff:
  "addToCluster sim pages page us \<longleftrightarrow>
     (\<forall>u\<in>set us. \<forall>p2. pages u = Some p2 \<longrightarrow>
        \<not> sim (PageStructure page) (PageStructure p2) < 80 / 100)"
  by (induction us) (auto simp: GetPage_def split: option.splits)

lemma accepts_addToCluster: "accepts sim pages page kc = addToCluster sim pages page (snd kc)"
proof -
  have "addToCluster sim pages page us =
          list_all (\<lambda>page2. 80 / 100 \<le> sim (PageStructure page) (PageStructure page2))
            (pages_in pages us)" for us
    by (induction us) (auto simp: pages_in_def not_less split: option.splits)
  then show ?thesis by (simp add: accepts_def)
qed

lemma foundCluster_find:
  "foundCluster sim pages page cs = map_option fst (find (accepts sim pages page) cs)"
  by (induction cs) (auto simp: accepts_addToCluster)

lemma foundCluster_key: "foundCluster sim pages page cs = Some k \<Longrightarrow> k \<in> fst ` set cs"
  by (induction cs) (auto split: if_splits)

lemma update_fresh: "k \<notin> fst ` set cs \<Longrightarrow> AList.update k v cs = cs @ [(k, v)]"
  by (induction cs) auto

lemma update_distinct_map:
  "distinct (map fst cs) \<Longrightarrow> (k, us) \<in> set cs \<Longrightarrow>
   AList.update k (us @ [u]) cs =
     map (\<lambda>(k', us'). if k' = k then (k', us' @ [u]) else (k', us')) cs"
proof (induction cs)
  case Nil
  then show ?case by simp
next
  case (Cons e cs)
  show ?case
  proof (cases "fst e = k")
    case True
    with Cons.prems have "e = (k, us)" and "k \<notin> fst ` set cs"
      by (cases e; force)+
    moreover from \<open>k \<notin> fst ` set cs\<close>
    have "map (\<lambda>(k', us'). if k' = k then (k', us' @ [u]) else (k', us')) cs = cs"
      by (induction cs) auto
    ultimately show ?thesis by simp
  next
    case False
    with Cons show ?thesis by (cases e) auto
  qed
qed

lemma cluster_at_distinct:
  "distinct (map fst cs) \<Longrightarrow> (k, us) \<in> set cs \<Longrightarrow> cluster_at cs k = us"
  by (simp add: cluster_at_def)

text \<open>One page: the loop body does what the specification's step does.\<close>

lemma clusterPage_spec:
  assumes "distinct (map fst cs)" and "set (ord cs) = set cs" and "uuid n \<notin> fst ` set cs"
  shows "clusterPage sim ord uuid pages page (cs, n) =
         spec_clusterPage sim ord uuid pages page (cs, n)"
proof (cases "find (accepts sim pages page) (ord cs)")
  case None
  then show ?thesis
    using assms(3) by (simp add: clusterPage_def spec_clusterPage_def foundCluster_find update_fresh)
next
  case (Some e)
  obtain k us where e: "e = (k, us)" by (cases e)
  from Some have "e \<in> set (ord cs)" by (auto simp: find_Some_iff)
  with assms(2) e have mem: "(k, us) \<in> set cs" by simp
  show ?thesis
    using Some e cluster_at_distinct [OF assms(1) mem] update_distinct_map [OF assms(1) mem]
    by (simp add: clusterPage_def spec_clusterPage_def foundCluster_find)
qed

lemma keys_clusterPage:
  assumes "set (ord cs) = set cs" and "clusterPage sim ord uuid pages page (cs, n) = (cs', n')"
  shows "(n' = n \<and> fst ` set cs' = fst ` set cs) \<or>
         (n' = Suc n \<and> fst ` set cs' = insert (uuid n) (fst ` set cs))"
proof -
  have K: "fst ` set (AList.update k v cs) = insert k (fst ` set cs)" for k v
    by (simp add: dom_update)
  show ?thesis
  proof (cases "foundCluster sim pages page (ord cs)")
    case None
    with assms(2) have "n' = Suc n" and "cs' = AList.update (uuid n) [URL page] cs"
      by (simp_all add: clusterPage_def)
    then show ?thesis by (simp only: K) simp
  next
    case (Some k)
    from foundCluster_key [OF Some] assms(1) have "k \<in> fst ` set cs" by simp
    moreover from Some assms(2)
    have "n' = n" and "cs' = AList.update k (cluster_at cs k @ [URL page]) cs"
      by (simp_all add: clusterPage_def)
    ultimately show ?thesis by (simp only: K) auto
  qed
qed

lemma distinct_clusterPage:
  "distinct (map fst cs) \<Longrightarrow> clusterPage sim ord uuid pages page (cs, n) = (cs', n') \<Longrightarrow>
     distinct (map fst cs')"
  by (auto simp: clusterPage_def distinct_update split: option.splits)

text \<open>
  Claim C4. In the clustering pass each page, taken in the order in which the page map
  is visited, is appended to the first cluster (in the order in which the cluster map
  is visited) in which every page has similarity at least \<open>0.80\<close> with it; if no
  cluster accepts it, a new cluster under a new identifier holds just this page. This
  is the pass of the specification (\<open>spec_clusterPages\<close>), for every way \<open>ord\<close> of
  visiting the clusters, provided the identifiers drawn are fresh: distinct from each
  other and from the identifiers already in the cluster map.
\<close>

theorem clusterPages_spec:
  assumes "distinct (map fst cs)" and "\<forall>cs'. set (ord cs') = set cs'"
    and "inj_on uuid {n..<n + length ks}" and "\<forall>i<length ks. uuid (n + i) \<notin> fst ` set cs"
  shows "clusterPages sim ord uuid pages ks (cs, n) =
         spec_clusterPages sim ord uuid pages ks (cs, n)"
  using assms(1,3,4)
proof (induction ks arbitrary: cs n)
  case Nil
  show ?case by simp
next
  case (Cons k ks)
  have inj_n: "inj_on uuid {n..<n + length ks}"
    and inj_Suc: "inj_on uuid {Suc n..<Suc n + length ks}"
    using Cons.prems(2) by (auto intro: inj_on_subset)
  have fresh_n: "\<forall>i<length ks. uuid (n + i) \<notin> fst ` set cs"
    using Cons.prems(3) by auto
  show ?case
  proof (cases "pages k")
    case None
    then show ?thesis using Cons.IH [OF Cons.prems(1) inj_n fresh_n] by simp
  next
    case (Some page)
    from Cons.prems(3) have f0: "uuid n \<notin> fst ` set cs" by force
    from assms(2) have o: "set (ord cs) = set cs" by simp
    have step: "clusterPage sim ord uuid pages page (cs, n) =
        spec_clusterPage sim ord uuid pages page (cs, n)"
      by (rule clusterPage_spec) (fact Cons.prems(1) o f0)+
    obtain cs' n' where st: "clusterPage sim ord uuid pages page (cs, n) = (cs', n')"
      by (cases "clusterPage sim ord uuid pages page (cs, n)")
    note d = distinct_clusterPage [OF Cons.prems(1) st]
    from keys_clusterPage [OF o st]
    have "clusterPages sim ord uuid pages ks (cs', n') =
          spec_clusterPages sim ord uuid pages ks (cs', n')"
    proof
      assume a: "n' = n \<and> fst ` set cs' = fst ` set cs"
      with fresh_n have "\<forall>i<length ks. uuid (n' + i) \<notin> fst ` set cs'" by simp
      with Cons.IH [OF d, of n'] inj_n a show ?thesis by simp
    next
      assume a: "n' = Suc n \<and> fst ` set cs' = insert (uuid n) (fst ` set cs)"
      have "uuid (Suc n + i) \<notin> fst ` set cs'" if "i < length ks" for i
      proof -
        from that Cons.prems(3) have "uuid (n + Suc i) \<notin> fst ` set cs" by force
        moreover have "uuid (Suc n + i) \<noteq> uuid n"
        proof
          assume "uuid (Suc n + i) = uuid n"
          with that inj_onD [OF Cons.prems(2), of "Suc n + i" n] show False by simp
        qed
        ultimately show ?thesis using a by simp
      qed
      with Cons.IH [OF d, of n'] inj_Suc a show ?thesis by simp
    qed
    with Some step st show ?thesis by simp
  qed
qed

theorem clusterPages_spec_witness:
  "clusterPages GetSimilarity rev example_uuid example_pages
     [''http://a.example'', ''http://b.example'', ''http://c.example''] ([], 0) =
     ([(''6a9c1f0e-2d8b-4c57-9e11-0b6f3a7d5c21'', [''http://a.example'', ''http://b.example'']),
       (''1e4b7a92-5f3c-4d08-8a6e-c2d9f0b3e754'', [''http://c.example''])], 2)
   \<and> spec_clusterPages GetSimilarity rev example_uuid example_pages
     [''http://a.example'', ''http://b.example'', ''http://c.example''] ([], 0) =
     ([(''6a9c1f0e-2d8b-4c57-9e11-0b6f3a7d5c21'', [''http://a.example'', ''http://b.example'']),
       (''1e4b7a92-5f3c-4d08-8a6e-c2d9f0b3e754'', [''http://c.example''])], 2)"
proof -
  let ?ks = "[''http://a.example'', ''http://b.example'', ''http://c.example'']"
  have d: "distinct (map fst ([] :: clusters))"
    by simp
  have o: "\<forall>cs' :: clusters. set (rev cs') = set cs'"
    by simp
  have i: "inj_on example_uuid {0..<0 + length ?ks}"
    by (simp add: inj_on_def example_uuid_def)
  have f: "\<forall>i<length ?ks. example_uuid (0 + i) \<notin> fst ` set ([] :: clusters)"
    by simp
  have "spec_clusterPages GetSimilarity rev example_uuid example_pages ?ks ([], 0) =
     ([(''6a9c1f0e-2d8b-4c57-9e11-0b6f3a7d5c21'', [''http://a.example'', ''http://b.example'']),
       (''1e4b7a92-5f3c-4d08-8a6e-c2d9f0b3e754'', [''http://c.example''])], 2)"
    by code_simp
  with clusterPages_spec [OF d o i f, of GetSimilarity example_pages] show ?thesis
    by simp
qed

section \<open>The order of the pages and the layout of the clusters\<close>

lemma foundCluster_map_keys:
  "foundCluster sim pages page (map (apfst f) cs) = map_option f (foundCluster sim pages page cs)"
  by (induction cs) auto

lemma update_map_keys:
  "inj_on f (insert k (fst ` set cs)) \<Longrightarrow>
   AList.update (f k) v (map (apfst f) cs) = map (apfst f) (AList.update k v cs)"
proof (induction cs)
  case Nil
  then show ?case by simp
next
  case (Cons e cs)
  from Cons.prems have "inj_on f (insert k (fst ` set cs))"
    by (auto intro: inj_on_subset)
  with Cons.IH have IH: "AList.update (f k) v (map (apfst f) cs) = map (apfst f) (AList.update k v cs)" .
  from Cons.prems have "f (fst e) = f k \<longleftrightarrow> fst e = k"
    by (auto simp: inj_on_def)
  with IH show ?case by (cases e) auto
qed

lemma cluster_at_map_keys:
  "inj_on f (insert k (fst ` set cs)) \<Longrightarrow> cluster_at (map (apfst f) cs) (f k) = cluster_at cs k"
proof (induction cs)
  case Nil
  then show ?case by (simp add: cluster_at_def)
next
  case (Cons e cs)
  from Cons.prems have "inj_on f (insert k (fst ` set cs))"
    by (auto intro: inj_on_subset)
  with Cons.IH have IH: "cluster_at (map (apfst f) cs) (f k) = cluster_at cs k" .
  from Cons.prems have "f (fst e) = f k \<longleftrightarrow> fst e = k"
    by (auto simp: inj_on_def)
  with IH show ?case by (cases e) (auto simp: cluster_at_def)
qed

lemma clusterPage_rename:
  assumes ob: "\<forall>g cs'. ord (map (apfst g) cs') = map (apfst g) (ord cs')"
    and re: "set (ord cs) = set cs"
    and inj: "inj_on f (insert (ua n) (fst ` set cs))"
    and fn: "f (ua n) = ub n"
  shows "clusterPage sim ord ub pages page (map (apfst f) cs, n) =
         apfst (map (apfst f)) (clusterPage sim ord ua pages page (cs, n))"
proof (cases "foundCluster sim pages page (ord cs)")
  case None
  with ob have "foundCluster sim pages page (ord (map (apfst f) cs)) = None"
    by (simp add: foundCluster_map_keys)
  with None show ?thesis
    using update_map_keys [OF inj, of "[URL page]"] fn by (simp add: clusterPage_def)
next
  case (Some k)
  with ob have F: "foundCluster sim pages page (ord (map (apfst f) cs)) = Some (f k)"
    by (simp add: foundCluster_map_keys)
  from foundCluster_key [OF Some] re have "k \<in> fst ` set cs" by simp
  then have "insert k (fst ` set cs) \<subseteq> insert (ua n) (fst ` set cs)" by auto
  with inj have i: "inj_on f (insert k (fst ` set cs))"
    by (rule inj_on_subset)
  from Some F show ?thesis
    using update_map_keys [OF i] cluster_at_map_keys [OF i] by (simp add: clusterPage_def)
qed

lemma clusterPages_rename:
  assumes ob: "\<forall>g cs'. ord (map (apfst g) cs') = map (apfst g) (ord cs')"
    and re: "\<forall>cs'. set (ord cs') = set cs'"
    and inj: "inj_on f (ua ` {..<N})"
    and fn: "\<forall>i<N. f (ua i) = ub i"
    and keys: "fst ` set cs \<subseteq> ua ` {..<n}"
    and len: "n + length ks \<le> N"
  shows "clusterPages sim ord ub pages ks (map (apfst f) cs, n) =
         apfst (map (apfst f)) (clusterPages sim ord ua pages ks (cs, n))"
  using keys len
proof (induction ks arbitrary: cs n)
  case Nil
  show ?case by simp
next
  case (Cons k ks)
  from Cons.prems(2) have len': "n + length ks \<le> N" and nN: "n < N" by simp_all
  show ?case
  proof (cases "pages k")
    case None
    with Cons.IH [OF Cons.prems(1) len'] show ?thesis by simp
  next
    case (Some page)
    from re have o: "set (ord cs) = set cs" by simp
    from Cons.prems(1) nN have "insert (ua n) (fst ` set cs) \<subseteq> ua ` {..<N}"
      by auto
    with inj have i: "inj_on f (insert (ua n) (fst ` set cs))"
      by (rule inj_on_subset)
    from fn nN have f: "f (ua n) = ub n" by simp
    have step: "clusterPage sim ord ub pages page (map (apfst f) cs, n) =
        apfst (map (apfst f)) (clusterPage sim ord ua pages page (cs, n))"
      using ob o i f by (rule clusterPage_rename)
    obtain cs' n' where st: "clusterPage sim ord ua pages page (cs, n) = (cs', n')"
      by (cases "clusterPage sim ord ua pages page (cs, n)")
    from keys_clusterPage [OF o st]
    have k': "fst ` set cs' \<subseteq> ua ` {..<n'}"
    proof
      assume "n' = n \<and> fst ` set cs' = fst ` set cs"
      with Cons.prems(1) show ?thesis by simp
    next
      assume a: "n' = Suc n \<and> fst ` set cs' = insert (ua n) (fst ` set cs)"
      have "ua ` {..<n} \<subseteq> ua ` {..<Suc n}" by (rule image_mono) auto
      with Cons.prems(1) a show ?thesis by auto
    qed
    from keys_clusterPage [OF o st] Cons.prems(2) have l': "n' + length ks \<le> N"
      by auto
    from Cons.IH [OF k' l'] Some step st show ?thesis by simp
  qed
qed

text \<open>
  Claim C6, as stated, fails: nothing in the pass sorts the pages, it visits them in the
  order the iteration over the page map yields, and the clusters depend on that order.
  For the three example pages the visit in the order of the URLs and the visit in the
  reverse order, both over the same page map, give different partitions.
\<close>

theorem page_order_changes_clusters:
  "set (rev example_keys) = set example_keys
   \<and> clusterPages GetSimilarity (\<lambda>cs. cs) example_uuid example_pages example_keys ([], 0) =
     ([(''6a9c1f0e-2d8b-4c57-9e11-0b6f3a7d5c21'', [''http://a.example'', ''http://b.example'']),
       (''1e4b7a92-5f3c-4d08-8a6e-c2d9f0b3e754'', [''http://c.example''])], 2)
   \<and> clusterPages GetSimilarity (\<lambda>cs. cs) example_uuid example_pages (rev example_keys) ([], 0) =
     ([(''6a9c1f0e-2d8b-4c57-9e11-0b6f3a7d5c21'', [''http://c.example'', ''http://b.example'']),
       (''1e4b7a92-5f3c-4d08-8a6e-c2d9f0b3e754'', [''http://a.example''])], 2)
   \<and> partition_of
         (fst (clusterPages GetSimilarity (\<lambda>cs. cs) example_uuid example_pages example_keys ([], 0))) \<noteq>
       partition_of
         (fst (clusterPages GetSimilarity (\<lambda>cs. cs) example_uuid example_pages (rev example_keys)
            ([], 0)))"
  by code_simp

text \<open>
  Claim C6, amended. The pass visits the pages in the order the iteration over the page
  map yields (a parameter here), without sorting them. Two executions over the same page
  map from an empty cluster map that visit the pages in the same order, and the clusters
  in the same order (one that rearranges the clusters without looking at their
  identifiers), produce the same cluster layout, that is the same clusters with the
  same members in the same order, and draw the same number of identifiers, whatever
  fresh identifiers each execution draws.
\<close>

theorem clusterPages_layout_deterministic:
  assumes "\<forall>g cs'. ord (map (apfst g) cs') = map (apfst g) (ord cs')"
    and "\<forall>cs'. set (ord cs') = set cs'"
    and "inj_on ua {..<length ks}" and "inj_on ub {..<length ks}"
  shows "layout_of (fst (clusterPages sim ord ua pages ks ([], 0))) =
         layout_of (fst (clusterPages sim ord ub pages ks ([], 0)))
       \<and> snd (clusterPages sim ord ua pages ks ([], 0)) =
         snd (clusterPages sim ord ub pages ks ([], 0))"
proof -
  define f where "f = (\<lambda>k. ub (the_inv_into {..<length ks} ua k))"
  have fn: "\<forall>i<length ks. f (ua i) = ub i"
    using assms(3) by (simp add: f_def the_inv_into_f_f)
  have inj: "inj_on f (ua ` {..<length ks})"
  proof (rule inj_onI)
    fix x y assume "x \<in> ua ` {..<length ks}" "y \<in> ua ` {..<length ks}" "f x = f y"
    then obtain i j where "i < length ks" "j < length ks" "x = ua i" "y = ua j" by auto
    with \<open>f x = f y\<close> fn have "ub i = ub j" by simp
    with assms(4) \<open>i < length ks\<close> \<open>j < length ks\<close> have "i = j" by (auto dest: inj_onD)
    with \<open>x = ua i\<close> \<open>y = ua j\<close> show "x = y" by simp
  qed
  from clusterPages_rename [OF assms(1,2) inj fn, of "[]" 0 ks sim pages]
  have "clusterPages sim ord ub pages ks ([], 0) =
        apfst (map (apfst f)) (clusterPages sim ord ua pages ks ([], 0))"
    by simp
  then show ?thesis
    by (cases "clusterPages sim ord ua pages ks ([], 0)") (simp add: layout_of_def comp_def)
qed

theorem clusterPages_layout_deterministic_witness:
  "layout_of (fst (clusterPages GetSimilarity rev example_uuid example_pages example_keys ([], 0))) =
     [[''http://a.example'', ''http://b.example''], [''http://c.example'']]
   \<and> layout_of (fst (clusterPages GetSimilarity rev other_uuid example_pages example_keys ([], 0))) =
     [[''http://a.example'', ''http://b.example''], [''http://c.example'']]
   \<and> map fst (fst (clusterPages GetSimilarity rev example_uuid example_pages example_keys ([], 0))) \<noteq>
     map fst (fst (clusterPages GetSimilarity rev other_uuid example_pages example_keys ([], 0)))"
proof -
  have ob: "\<forall>g (cs' :: clusters). rev (map (apfst g) cs') = map (apfst g) (rev cs')"
    by (simp add: rev_map)
  have re: "\<forall>cs' :: clusters. set (rev cs') = set cs'"
    by simp
  have ia: "inj_on example_uuid {..<length example_keys}"
    by (simp add: inj_on_def example_uuid_def example_keys_def lessThan_Suc numeral_3_eq_3)
  have ib: "inj_on other_uuid {..<length example_keys}"
    by (simp add: inj_on_def other_uuid_def example_keys_def lessThan_Suc numeral_3_eq_3)
  have a: "layout_of (fst (clusterPages GetSimilarity rev example_uuid example_pages example_keys
      ([], 0))) = [[''http://a.example'', ''http://b.example''], [''http://c.example'']]"
    by code_simp
  have n: "map fst (fst (clusterPages GetSimilarity rev example_uuid example_pages example_keys
      ([], 0))) \<noteq>
     map fst (fst (clusterPages GetSimilarity rev other_uuid example_pages example_keys ([], 0)))"
    by code_simp
  from clusterPages_layout_deterministic [OF ob re ia ib, of GetSimilarity example_pages] a n
  show ?thesis by simp
qed

section \<open>Running the clustering pass a second time\<close>

lemma addToCluster_mono:
  "set us \<subseteq> set vs \<Longrightarrow> addToCluster sim pages p vs \<Longrightarrow> addToCluster sim pages p us"
  by (auto simp: addToCluster_iff)

lemma addToCluster_set:
  "set us = set vs \<Longrightarrow> addToCluster sim pages p us = addToCluster sim pages p vs"
  by (auto simp: addToCluster_iff)

lemma addToCluster_snoc:
  "addToCluster sim pages p (us @ [u]) \<longleftrightarrow>
     addToCluster sim pages p us \<and>
     (\<forall>p2. pages u = Some p2 \<longrightarrow> \<not> sim (PageStructure p) (PageStructure p2) < 80 / 100)"
  by (auto simp: addToCluster_iff)

lemma cluster_at_update:
  "cluster_at (AList.update k v cs) k' = (if k' = k then v else cluster_at cs k')"
  by (simp add: cluster_at_def update_conv')

lemma foundCluster_accepts:
  "distinct (map fst cs) \<Longrightarrow> foundCluster sim pages p cs = Some k \<Longrightarrow>
     addToCluster sim pages p (cluster_at cs k)"
proof (induction cs)
  case Nil
  then show ?case by simp
next
  case (Cons e cs)
  obtain k0 us0 where e: "e = (k0, us0)" by (cases e)
  show ?case
  proof (cases "addToCluster sim pages p us0")
    case True
    with Cons.prems e show ?thesis by (simp add: cluster_at_def)
  next
    case False
    with Cons.prems e have f: "foundCluster sim pages p cs = Some k" by simp
    from foundCluster_key [OF f] Cons.prems(1) e have "k \<noteq> k0" by auto
    with Cons.IH [OF _ f] Cons.prems(1) e show ?thesis by (simp add: cluster_at_def)
  qed
qed

lemma foundCluster_update:
  assumes "foundCluster sim pages p cs = Some kp"
    and "\<forall>us. (k, us) \<in> set cs \<longrightarrow> set us \<subseteq> set v"
    and "kp = k \<longrightarrow> addToCluster sim pages p v"
  shows "foundCluster sim pages p (AList.update k v cs) = Some kp"
  using assms
proof (induction cs)
  case Nil
  then show ?case by simp
next
  case (Cons e cs)
  obtain k0 us0 where e: "e = (k0, us0)" by (cases e)
  show ?case
  proof (cases "k0 = k")
    case True
    show ?thesis
    proof (cases "addToCluster sim pages p us0")
      case acc: True
      with Cons.prems e True show ?thesis by simp
    next
      case rej: False
      from Cons.prems(2) e True have "set us0 \<subseteq> set v" by simp
      with rej addToCluster_mono have "\<not> addToCluster sim pages p v" by blast
      with Cons.prems(1) e True rej show ?thesis by simp
    qed
  next
    case False
    show ?thesis
    proof (cases "addToCluster sim pages p us0")
      case acc: True
      with Cons.prems e False show ?thesis by simp
    next
      case rej: False
      with Cons.prems(1) e have f: "foundCluster sim pages p cs = Some kp" by simp
      from Cons.prems(2) have "\<forall>us. (k, us) \<in> set cs \<longrightarrow> set us \<subseteq> set v" by simp
      from Cons.IH [OF f this Cons.prems(3)] e False rej show ?thesis by simp
    qed
  qed
qed

lemma foundCluster_none_append:
  "foundCluster sim pages p cs = None \<Longrightarrow>
   foundCluster sim pages p (cs @ [(k, us)]) = (if addToCluster sim pages p us then Some k else None)"
  by (induction cs) (auto split: if_splits)

lemma member_sets_found:
  "member_sets cs = member_sets cs' \<Longrightarrow> foundCluster sim pages p cs = foundCluster sim pages p cs'"
proof (induction cs arbitrary: cs')
  case Nil
  then show ?case by (simp add: member_sets_def)
next
  case (Cons e cs)
  then obtain e' cs1 where c: "cs' = e' # cs1" by (cases cs') (auto simp: member_sets_def)
  with Cons.prems have "fst e = fst e'" "set (snd e) = set (snd e')" "member_sets cs = member_sets cs1"
    by (cases e; cases e'; simp add: member_sets_def)+
  with Cons.IH [of cs1] c addToCluster_set [of "snd e" "snd e'" sim pages p]
  show ?case by (cases e; cases e') auto
qed

lemma member_sets_cluster_at:
  "member_sets cs = member_sets cs' \<Longrightarrow> set (cluster_at cs k) = set (cluster_at cs' k)"
proof (induction cs arbitrary: cs')
  case Nil
  then show ?case by (simp add: member_sets_def)
next
  case (Cons e cs)
  then obtain e' cs1 where c: "cs' = e' # cs1" by (cases cs') (auto simp: member_sets_def)
  with Cons.prems have "fst e = fst e'" "set (snd e) = set (snd e')" "member_sets cs = member_sets cs1"
    by (cases e; cases e'; simp add: member_sets_def)+
  with Cons.IH [of cs1] c show ?case by (cases e; cases e') (auto simp: cluster_at_def)
qed

lemma member_sets_settled:
  "member_sets cs = member_sets cs' \<Longrightarrow> settled sim pages cs p = settled sim pages cs' p"
  using member_sets_found [of cs cs' sim pages p] member_sets_cluster_at [of cs cs']
  by (simp add: settled_def split: option.splits)

lemma member_sets_update:
  "distinct (map fst cs) \<Longrightarrow> k \<in> fst ` set cs \<Longrightarrow> set v = set (cluster_at cs k) \<Longrightarrow>
     member_sets (AList.update k v cs) = member_sets cs"
proof (induction cs)
  case Nil
  then show ?case by simp
next
  case (Cons e cs)
  obtain k0 us0 where e: "e = (k0, us0)" by (cases e)
  show ?case
  proof (cases "k0 = k")
    case True
    with Cons.prems e show ?thesis by (simp add: member_sets_def cluster_at_def)
  next
    case False
    with Cons.prems e have "k \<in> fst ` set cs" "set v = set (cluster_at cs k)" "distinct (map fst cs)"
      by (auto simp: cluster_at_def)
    with Cons.IH e False show ?thesis by (simp add: member_sets_def)
  qed
qed

lemma partition_of_member_sets: "partition_of cs = snd ` set (member_sets cs)"
  by (simp add: partition_of_def member_sets_def image_image)

lemma keys_member_sets: "map fst cs = map fst (member_sets cs)"
  by (simp add: member_sets_def comp_def)

text \<open>
  One step of the pass, with the clusters visited in order of creation: the page it
  places is settled afterwards, and so is every page that was settled before.
\<close>

lemma settled_after_own_step:
  assumes d: "distinct (map fst cs)" and fresh: "uuid n \<notin> fst ` set cs"
    and refl: "\<forall>p2. pages (URL q) = Some p2 \<longrightarrow> \<not> sim (PageStructure q) (PageStructure p2) < 80 / 100"
  shows "settled sim pages (fst (clusterPage sim (\<lambda>cs. cs) uuid pages q (cs, n))) q"
proof (cases "foundCluster sim pages q cs")
  case None
  from fresh have u: "AList.update (uuid n) [URL q] cs = cs @ [(uuid n, [URL q])]"
    by (rule update_fresh)
  from refl have "addToCluster sim pages q [URL q]" by (simp add: addToCluster_iff)
  with foundCluster_none_append [OF None, of "uuid n" "[URL q]"]
  have "foundCluster sim pages q (cs @ [(uuid n, [URL q])]) = Some (uuid n)" by simp
  moreover have "cluster_at (AList.update (uuid n) [URL q] cs) (uuid n) = [URL q]"
    by (simp add: cluster_at_update)
  ultimately show ?thesis using None u by (simp add: clusterPage_def settled_def)
next
  case (Some k)
  let ?v = "cluster_at cs k @ [URL q]"
  have a: "\<forall>us. (k, us) \<in> set cs \<longrightarrow> set us \<subseteq> set ?v"
    using d by (auto simp: cluster_at_def)
  from foundCluster_accepts [OF d Some] refl have b: "addToCluster sim pages q ?v"
    by (simp add: addToCluster_snoc)
  from foundCluster_update [OF Some a] b
  have "foundCluster sim pages q (AList.update k ?v cs) = Some k" by simp
  with Some show ?thesis by (simp add: clusterPage_def settled_def cluster_at_update)
qed

lemma settled_after_other_step:
  assumes d: "distinct (map fst cs)" and fresh: "uuid n \<notin> fst ` set cs"
    and sp: "settled sim pages cs p"
    and pp: "pages (URL p) = Some p" and pq: "pages (URL q) = Some q"
    and sym: "\<not> sim (PageStructure q) (PageStructure p) < 80 / 100 \<longrightarrow>
              \<not> sim (PageStructure p) (PageStructure q) < 80 / 100"
  shows "settled sim pages (fst (clusterPage sim (\<lambda>cs. cs) uuid pages q (cs, n))) p"
proof -
  from sp obtain kp where fp: "foundCluster sim pages p cs = Some kp"
    and mp: "URL p \<in> set (cluster_at cs kp)"
    by (auto simp: settled_def split: option.splits)
  show ?thesis
  proof (cases "foundCluster sim pages q cs")
    case None
    from foundCluster_key [OF fp] fresh have ne: "kp \<noteq> uuid n" by force
    have a: "\<forall>us. (uuid n, us) \<in> set cs \<longrightarrow> set us \<subseteq> set [URL q]"
      using fresh by force
    from foundCluster_update [OF fp a] ne
    have "foundCluster sim pages p (AList.update (uuid n) [URL q] cs) = Some kp" by simp
    with None ne mp show ?thesis by (simp add: clusterPage_def settled_def cluster_at_update)
  next
    case (Some k)
    let ?v = "cluster_at cs k @ [URL q]"
    have a: "\<forall>us. (k, us) \<in> set cs \<longrightarrow> set us \<subseteq> set ?v"
      using d by (auto simp: cluster_at_def)
    have b: "kp = k \<longrightarrow> addToCluster sim pages p ?v"
    proof
      assume eq: "kp = k"
      from foundCluster_accepts [OF d fp] eq have 1: "addToCluster sim pages p (cluster_at cs k)"
        by simp
      from foundCluster_accepts [OF d Some] mp eq pp
      have "\<not> sim (PageStructure q) (PageStructure p) < 80 / 100"
        by (auto simp: addToCluster_iff)
      with sym have "\<not> sim (PageStructure p) (PageStructure q) < 80 / 100" by simp
      with 1 pq show "addToCluster sim pages p ?v" by (simp add: addToCluster_snoc)
    qed
    from foundCluster_update [OF fp a b]
    have "foundCluster sim pages p (AList.update k ?v cs) = Some kp" .
    with Some mp show ?thesis by (auto simp: clusterPage_def settled_def cluster_at_update)
  qed
qed

lemma fresh_clusterPage:
  assumes o: "set (ord cs) = set cs" and st: "clusterPage sim ord uuid pages page (cs, n) = (cs', n')"
    and inj: "inj_on uuid {n..<n + Suc m}" and fresh: "\<forall>i<Suc m. uuid (n + i) \<notin> fst ` set cs"
  shows "inj_on uuid {n'..<n' + m} \<and> (\<forall>i<m. uuid (n' + i) \<notin> fst ` set cs')"
proof -
  from keys_clusterPage [OF o st] show ?thesis
  proof
    assume a: "n' = n \<and> fst ` set cs' = fst ` set cs"
    have "{n..<n + m} \<subseteq> {n..<n + Suc m}" by auto
    with inj have "inj_on uuid {n..<n + m}" by (rule inj_on_subset)
    with a fresh show ?thesis by simp
  next
    assume a: "n' = Suc n \<and> fst ` set cs' = insert (uuid n) (fst ` set cs)"
    have "{Suc n..<Suc n + m} \<subseteq> {n..<n + Suc m}" by auto
    with inj have i: "inj_on uuid {Suc n..<Suc n + m}" by (rule inj_on_subset)
    have "uuid (Suc n + i) \<notin> fst ` set cs'" if "i < m" for i
    proof -
      from that fresh have "uuid (n + Suc i) \<notin> fst ` set cs" by force
      moreover have "uuid (Suc n + i) \<noteq> uuid n"
      proof
        assume "uuid (Suc n + i) = uuid n"
        with that inj_onD [OF inj, of "Suc n + i" n] show False by simp
      qed
      ultimately show ?thesis using a by simp
    qed
    with i a show ?thesis by simp
  qed
qed

lemma first_pass_settles:
  assumes V: "\<forall>k\<in>set ks. \<forall>p. pages k = Some p \<longrightarrow> p \<in> V"
    and keyed: "\<forall>p\<in>V. pages (URL p) = Some p"
    and refl: "\<forall>p\<in>V. \<not> sim (PageStructure p) (PageStructure p) < 80 / 100"
    and sym: "\<forall>p\<in>V. \<forall>q\<in>V. \<not> sim (PageStructure q) (PageStructure p) < 80 / 100 \<longrightarrow>
                \<not> sim (PageStructure p) (PageStructure q) < 80 / 100"
    and d: "distinct (map fst cs)"
    and inj: "inj_on uuid {n..<n + length ks}"
    and fresh: "\<forall>i<length ks. uuid (n + i) \<notin> fst ` set cs"
    and D: "D \<subseteq> V" and S: "\<forall>p\<in>D. settled sim pages cs p"
  shows "distinct (map fst (fst (clusterPages sim (\<lambda>cs. cs) uuid pages ks (cs, n))))
       \<and> (\<forall>p\<in>D. settled sim pages (fst (clusterPages sim (\<lambda>cs. cs) uuid pages ks (cs, n))) p)
       \<and> (\<forall>k\<in>set ks. \<forall>p. pages k = Some p \<longrightarrow>
             settled sim pages (fst (clusterPages sim (\<lambda>cs. cs) uuid pages ks (cs, n))) p)"
  using V d inj fresh D S
proof (induction ks arbitrary: cs n D)
  case Nil
  then show ?case by simp
next
  case (Cons k ks)
  have V': "\<forall>k\<in>set ks. \<forall>p. pages k = Some p \<longrightarrow> p \<in> V"
    using Cons.prems(1) by simp
  show ?case
  proof (cases "pages k")
    case None
    have "{n..<n + length ks} \<subseteq> {n..<n + length (k # ks)}" by auto
    with Cons.prems(3) have i: "inj_on uuid {n..<n + length ks}" by (rule inj_on_subset)
    from Cons.prems(4) have f: "\<forall>i<length ks. uuid (n + i) \<notin> fst ` set cs" by auto
    from Cons.IH [OF V' Cons.prems(2) i f Cons.prems(5,6)] None show ?thesis by simp
  next
    case (Some q)
    with Cons.prems(1) have qV: "q \<in> V" by simp
    obtain cs' n' where st: "clusterPage sim (\<lambda>cs. cs) uuid pages q (cs, n) = (cs', n')"
      by (cases "clusterPage sim (\<lambda>cs. cs) uuid pages q (cs, n)")
    from Cons.prems(4) have f0: "uuid n \<notin> fst ` set cs" by force
    note d' = distinct_clusterPage [OF Cons.prems(2) st]
    from fresh_clusterPage [where ord = "\<lambda>cs. cs" and uuid = uuid and n = n and m = "length ks",
        OF _ st] Cons.prems(3,4)
    have i': "inj_on uuid {n'..<n' + length ks}" and f': "\<forall>i<length ks. uuid (n' + i) \<notin> fst ` set cs'"
      by simp_all
    have own: "settled sim pages cs' q"
      using settled_after_own_step [where uuid = uuid and n = n and cs = cs and pages = pages
          and q = q and sim = sim, OF Cons.prems(2) f0] keyed refl qV st by simp
    have others: "settled sim pages cs' p" if "p \<in> D" for p
    proof -
      from that Cons.prems(5) have pV: "p \<in> V" by auto
      from that Cons.prems(6) have sp: "settled sim pages cs p" by simp
      from keyed pV qV have pp: "pages (URL p) = Some p" and pq: "pages (URL q) = Some q" by simp_all
      from sym pV qV have sy: "\<not> sim (PageStructure q) (PageStructure p) < 80 / 100 \<longrightarrow>
              \<not> sim (PageStructure p) (PageStructure q) < 80 / 100" by simp
      from settled_after_other_step [where uuid = uuid and n = n, OF Cons.prems(2) f0 sp pp pq sy] st
      show ?thesis by simp
    qed
    from qV Cons.prems(5) have D': "insert q D \<subseteq> V" by simp
    from own others have S': "\<forall>p\<in>insert q D. settled sim pages cs' p" by auto
    from Cons.IH [OF V' d' i' f' D' S'] Some st show ?thesis by simp
  qed
qed

lemma second_pass_keeps:
  assumes "distinct (map fst cs)"
    and "\<forall>k\<in>set ks. \<forall>p. pages k = Some p \<longrightarrow> settled sim pages cs p"
  shows "member_sets (fst (clusterPages sim (\<lambda>cs. cs) uuid pages ks (cs, n))) = member_sets cs
       \<and> snd (clusterPages sim (\<lambda>cs. cs) uuid pages ks (cs, n)) = n"
  using assms
proof (induction ks arbitrary: cs)
  case Nil
  show ?case by simp
next
  case (Cons k ks)
  show ?case
  proof (cases "pages k")
    case None
    with Cons show ?thesis by simp
  next
    case (Some q)
    with Cons.prems(2) have "settled sim pages cs q" by simp
    then obtain kq where f: "foundCluster sim pages q cs = Some kq"
      and m: "URL q \<in> set (cluster_at cs kq)"
      by (auto simp: settled_def split: option.splits)
    let ?cs' = "AList.update kq (cluster_at cs kq @ [URL q]) cs"
    from f have st: "clusterPage sim (\<lambda>cs. cs) uuid pages q (cs, n) = (?cs', n)"
      by (simp add: clusterPage_def)
    from m have "set (cluster_at cs kq @ [URL q]) = set (cluster_at cs kq)" by auto
    from member_sets_update [OF Cons.prems(1) foundCluster_key [OF f] this]
    have ms: "member_sets ?cs' = member_sets cs" .
    have d': "distinct (map fst ?cs')" using Cons.prems(1) by (simp add: distinct_update)
    from Cons.prems(2) member_sets_settled [OF ms]
    have S': "\<forall>k\<in>set ks. \<forall>p. pages k = Some p \<longrightarrow> settled sim pages ?cs' p" by simp
    from Cons.IH [OF d' S'] ms Some st show ?thesis by simp
  qed
qed

text \<open>
  Claim C5, as stated, fails: the pass does not reset the cluster map, so a second run
  appends every page again, and where it appends depends on the order in which the
  clusters are visited. With the clusters visited from the newest to the oldest (a
  fixed order) and the pages in the same order both times, the second run puts the
  second example page into the cluster of the third as well: the partition after two
  runs is not the partition after one.
\<close>

theorem second_run_changes_partition:
  "clusterPages GetSimilarity rev example_uuid example_pages example_keys ([], 0) =
     ([(''6a9c1f0e-2d8b-4c57-9e11-0b6f3a7d5c21'', [''http://a.example'', ''http://b.example'']),
       (''1e4b7a92-5f3c-4d08-8a6e-c2d9f0b3e754'', [''http://c.example''])], 2)
   \<and> clusterPages GetSimilarity rev example_uuid example_pages example_keys
       (clusterPages GetSimilarity rev example_uuid example_pages example_keys ([], 0)) =
     ([(''6a9c1f0e-2d8b-4c57-9e11-0b6f3a7d5c21'',
          [''http://a.example'', ''http://b.example'', ''http://a.example'']),
       (''1e4b7a92-5f3c-4d08-8a6e-c2d9f0b3e754'',
          [''http://c.example'', ''http://b.example'', ''http://c.example''])], 2)
   \<and> partition_of (fst (clusterPages GetSimilarity rev example_uuid example_pages example_keys
          (clusterPages GetSimilarity rev example_uuid example_pages example_keys ([], 0)))) \<noteq>
       partition_of (fst (clusterPages GetSimilarity rev example_uuid example_pages example_keys
          ([], 0)))"
  by code_simp

text \<open>
  Claim C5, amended. Running the clustering loop a second time on the session the first
  run left, with the pages visited in the same order, yields the same partition into
  clusters (as sets of URLs) under the same identifiers as running it once, provided
  that the clusters are visited in order of creation, every page visited is stored
  under its own URL, the identifiers drawn are distinct, and on the structures of the
  pages visited the similarity is reflexive and symmetric with respect to the
  threshold \<open>0.80\<close>.
\<close>

theorem clusterPages_twice:
  assumes keyed: "\<forall>k\<in>set ks. \<forall>p. pages k = Some p \<longrightarrow> URL p = k"
    and refl: "\<forall>k\<in>set ks. \<forall>p. pages k = Some p \<longrightarrow>
                \<not> sim (PageStructure p) (PageStructure p) < 80 / 100"
    and sym: "\<forall>k\<in>set ks. \<forall>k'\<in>set ks. \<forall>p q. pages k = Some p \<and> pages k' = Some q \<longrightarrow>
                \<not> sim (PageStructure q) (PageStructure p) < 80 / 100 \<longrightarrow>
                \<not> sim (PageStructure p) (PageStructure q) < 80 / 100"
    and fresh: "inj_on uuid {..<length ks}"
  shows "partition_of (fst (clusterPages sim (\<lambda>cs. cs) uuid pages ks
            (clusterPages sim (\<lambda>cs. cs) uuid pages ks ([], 0)))) =
         partition_of (fst (clusterPages sim (\<lambda>cs. cs) uuid pages ks ([], 0)))
       \<and> map fst (fst (clusterPages sim (\<lambda>cs. cs) uuid pages ks
            (clusterPages sim (\<lambda>cs. cs) uuid pages ks ([], 0)))) =
         map fst (fst (clusterPages sim (\<lambda>cs. cs) uuid pages ks ([], 0)))"
proof -
  define V where "V = {p. \<exists>k\<in>set ks. pages k = Some p}"
  obtain cs1 n1 where once: "clusterPages sim (\<lambda>cs. cs) uuid pages ks ([], 0) = (cs1, n1)"
    by (cases "clusterPages sim (\<lambda>cs. cs) uuid pages ks ([], 0)")
  have V: "\<forall>k\<in>set ks. \<forall>p. pages k = Some p \<longrightarrow> p \<in> V" by (auto simp: V_def)
  have k: "\<forall>p\<in>V. pages (URL p) = Some p" using keyed by (auto simp: V_def)
  have r: "\<forall>p\<in>V. \<not> sim (PageStructure p) (PageStructure p) < 80 / 100"
    using refl by (auto simp: V_def)
  have s: "\<forall>p\<in>V. \<forall>q\<in>V. \<not> sim (PageStructure q) (PageStructure p) < 80 / 100 \<longrightarrow>
                \<not> sim (PageStructure p) (PageStructure q) < 80 / 100"
    using sym unfolding V_def by blast
  have i: "inj_on uuid {0..<0 + length ks}" using fresh by (simp add: atLeast0LessThan)
  from first_pass_settles [OF V k r s _ i, of "[]" "{}"] once
  have d1: "distinct (map fst cs1)"
    and s1: "\<forall>k\<in>set ks. \<forall>p. pages k = Some p \<longrightarrow> settled sim pages cs1 p"
    by simp_all
  from second_pass_keeps [OF d1 s1, of uuid n1]
  have "member_sets (fst (clusterPages sim (\<lambda>cs. cs) uuid pages ks (cs1, n1))) = member_sets cs1"
    by simp
  with once show ?thesis
    by (simp add: partition_of_member_sets) (metis keys_member_sets)
qed

lemma example_similarities:
  "GetSimilarity structure_a structure_a = 1" "GetSimilarity structure_b structure_b = 1"
  "GetSimilarity structure_c structure_c = 1"
  "GetSimilarity structure_a structure_b = 5 / 6" "GetSimilarity structure_b structure_a = 5 / 6"
  "GetSimilarity structure_b structure_c = 5 / 6" "GetSimilarity structure_c structure_b = 5 / 6"
  "GetSimilarity structure_a structure_c = 2 / 3" "GetSimilarity structure_c structure_a = 2 / 3"
  by code_simp+

theorem clusterPages_twice_witness:
  "clusterPages GetSimilarity (\<lambda>cs. cs) example_uuid example_pages example_keys
       (clusterPages GetSimilarity (\<lambda>cs. cs) example_uuid example_pages example_keys ([], 0)) =
     ([(''6a9c1f0e-2d8b-4c57-9e11-0b6f3a7d5c21'',
          [''http://a.example'', ''http://b.example'', ''http://a.example'', ''http://b.example'']),
       (''1e4b7a92-5f3c-4d08-8a6e-c2d9f0b3e754'', [''http://c.example'', ''http://c.example''])], 2)
   \<and> partition_of (fst (clusterPages GetSimilarity (\<lambda>cs. cs) example_uuid example_pages example_keys
          (clusterPages GetSimilarity (\<lambda>cs. cs) example_uuid example_pages example_keys ([], 0)))) =
       partition_of (fst (clusterPages GetSimilarity (\<lambda>cs. cs) example_uuid example_pages
          example_keys ([], 0)))"
proof -
  have keyed: "\<forall>k\<in>set example_keys. \<forall>p. example_pages k = Some p \<longrightarrow> URL p = k"
    by (simp add: example_keys_def example_pages_def example_page_def)
  have refl: "\<forall>k\<in>set example_keys. \<forall>p. example_pages k = Some p \<longrightarrow>
      \<not> GetSimilarity (PageStructure p) (PageStructure p) < 80 / 100"
    by (simp add: example_keys_def example_pages_def example_page_def example_similarities)
  have sym: "\<forall>k\<in>set example_keys. \<forall>k'\<in>set example_keys. \<forall>p q.
      example_pages k = Some p \<and> example_pages k' = Some q \<longrightarrow>
      \<not> GetSimilarity (PageStructure q) (PageStructure p) < 80 / 100 \<longrightarrow>
      \<not> GetSimilarity (PageStructure p) (PageStructure q) < 80 / 100"
    by (simp add: example_keys_def example_pages_def example_page_def example_similarities)
  have fresh: "inj_on example_uuid {..<length example_keys}"
    by (simp add: inj_on_def example_uuid_def example_keys_def lessThan_Suc numeral_3_eq_3)
  have v: "clusterPages GetSimilarity (\<lambda>cs. cs) example_uuid example_pages example_keys
       (clusterPages GetSimilarity (\<lambda>cs. cs) example_uuid example_pages example_keys ([], 0)) =
     ([(''6a9c1f0e-2d8b-4c57-9e11-0b6f3a7d5c21'',
          [''http://a.example'', ''http://b.example'', ''http://a.example'', ''http://b.example'']),
       (''1e4b7a92-5f3c-4d08-8a6e-c2d9f0b3e754'', [''http://c.example'', ''http://c.example''])], 2)"
    by code_simp
  from clusterPages_twice [OF keyed refl sym fresh] v show ?thesis
    by simp
qed

end
